theory Spec2Isabelle
  imports Complex_Main "HOL-Library.Multiset" "HOL-Library.AList"
    "HOL-Library.Char_ord" "HOL-Library.List_Lexorder"
begin

section \<open>Data model\<close>

text \<open>
  Goods and player names are Python strings. Valuations are Python numbers, modelled as
  reals. The normalization of \<open>player.py\<close> rounds the result of every float operation
  to binary64, as Python does; the sums and comparisons of the allocation phases are
  the mathematical ones. A Python dict that the code iterates over is an association
  list in insertion order whose keys are distinct (a dict never holds a key twice); a
  dict that is only indexed is a map.
\<close>

type_synonym good = string
type_synonym pname = string

datatype error =
    ValueError
  | KeyError
  | IndexError
  | StopIteration
  | ZeroDivisionError
  | StatisticsError
  | CycleDetected
  | NoValidRedistribution

text \<open>
  \<open>CycleDetected\<close> is the \<open>RuntimeError("Cycle detected in Phase 2 - algorithm failed.")\<close>
  of the redistribution loop and \<open>NoValidRedistribution\<close> its
  \<open>RuntimeError("Phase 2 failed: No valid redistribution found ...")\<close>.
\<close>

definition bind_res :: "error + 'a \<Rightarrow> ('a \<Rightarrow> error + 'b) \<Rightarrow> error + 'b" where
  "bind_res m f = (case m of Inl e \<Rightarrow> Inl e | Inr x \<Rightarrow> f x)"

fun map_res :: "('a \<Rightarrow> error + 'b) \<Rightarrow> 'a list \<Rightarrow> error + 'b list" where
  "map_res f [] = Inr []"
| "map_res f (x # xs) =
     (case f x of
        Inl e \<Rightarrow> Inl e
      | Inr y \<Rightarrow> (case map_res f xs of Inl e \<Rightarrow> Inl e | Inr ys \<Rightarrow> Inr (y # ys)))"

subsection \<open>player.py\<close>

record player =
  name :: pname
  valuation :: "(good \<times> real) list"
  normalized_valuation :: "(good \<times> real) list option"
  std_deviation :: "real option"

definition Player :: "pname \<Rightarrow> (good \<times> real) list \<Rightarrow> player" where
  "Player n v = \<lparr> name = n, valuation = v, normalized_valuation = None, std_deviation = None \<rparr>"









text \<open>
  \<open>if self.normalized_valuation:\<close> is false for \<open>None\<close> and for the empty dict.
\<close>

definition active_table :: "player \<Rightarrow> (good \<times> real) list" where
  "active_table self =
     (case normalized_valuation self of
        None \<Rightarrow> valuation self
      | Some nv \<Rightarrow> if nv \<noteq> [] then nv else valuation self)"

definition get_valuation :: "player \<Rightarrow> good \<Rightarrow> error + real" where
  "get_valuation self g =
     (case map_of (active_table self) g of None \<Rightarrow> Inl KeyError | Some v \<Rightarrow> Inr v)"

definition get_std_deviation :: "player \<Rightarrow> real" where
  "get_std_deviation self = (case std_deviation self of Some s \<Rightarrow> s | None \<Rightarrow> 0)"

text \<open>\<open>sum(player.get_valuation(g) for g in gs)\<close>: the first failing lookup raises.\<close>

fun sum_valuations :: "player \<Rightarrow> good list \<Rightarrow> error + real" where
  "sum_valuations p [] = Inr 0"
| "sum_valuations p (g # gs) =
     (case get_valuation p g of
        Inl e \<Rightarrow> Inl e
      | Inr v \<Rightarrow> (case sum_valuations p gs of Inl e \<Rightarrow> Inl e | Inr s \<Rightarrow> Inr (v + s)))"

subsection \<open>allocation_model.py\<close>

record allocation =
  assignments :: "pname \<rightharpoonup> good list"
  utilities :: "pname \<rightharpoonup> real"

definition Allocation :: allocation where
  "Allocation = \<lparr> assignments = Map.empty, utilities = Map.empty \<rparr>"

definition get_assignment :: "allocation \<Rightarrow> pname \<Rightarrow> good list" where
  "get_assignment a player_name =
     (case assignments a player_name of Some gs \<Rightarrow> gs | None \<Rightarrow> [])"

definition get_utility :: "allocation \<Rightarrow> pname \<Rightarrow> real" where
  "get_utility a player_name =
     (case utilities a player_name of Some u \<Rightarrow> u | None \<Rightarrow> 0)"

definition set_assignment :: "allocation \<Rightarrow> pname \<Rightarrow> good list \<Rightarrow> allocation" where
  "set_assignment a player_name goods = a\<lparr> assignments := (assignments a)(player_name \<mapsto> goods) \<rparr>"

definition set_utility :: "allocation \<Rightarrow> pname \<Rightarrow> real \<Rightarrow> allocation" where
  "set_utility a player_name utility = a\<lparr> utilities := (utilities a)(player_name \<mapsto> utility) \<rparr>"

subsection \<open>Constructors of the core components\<close>

record allocation_manager =
  m_players :: "player list"
  m_goods :: "good list"

record allocation_checker =
  c_players :: "player list"

record allocation_finder =
  f_manager :: allocation_manager
  f_checker :: allocation_checker

definition AllocationManager :: "player list \<Rightarrow> good list \<Rightarrow> error + allocation_manager" where
  "AllocationManager players goods =
     (if length players \<noteq> 4 then Inl ValueError
      else Inr \<lparr> m_players = players, m_goods = goods \<rparr>)"

definition AllocationChecker :: "player list \<Rightarrow> error + allocation_checker" where
  "AllocationChecker players =
     (if length players \<noteq> 4 then Inl ValueError else Inr \<lparr> c_players = players \<rparr>)"

definition AllocationFinder :: "allocation_manager \<Rightarrow> allocation_checker \<Rightarrow> error + allocation_finder" where
  "AllocationFinder manager checker =
     (if length (m_players manager) \<noteq> 4 then Inl ValueError
      else Inr \<lparr> f_manager = manager, f_checker = checker \<rparr>)"

text \<open>The three constructors in the order the callers run them.\<close>

definition construct_core :: "player list \<Rightarrow> good list \<Rightarrow> error + allocation_finder" where
  "construct_core players goods =
     bind_res (AllocationManager players goods) (\<lambda>manager.
     bind_res (AllocationChecker players) (\<lambda>checker.
     AllocationFinder manager checker))"

subsection \<open>Loops\<close>

text \<open>
  A \<open>for\<close> loop without \<open>break\<close> or \<open>return\<close>: the body maps the loop variable and
  the state of the mutated variables to their new state, and an exception in the body
  ends the loop.
\<close>

fun for_each :: "'a list \<Rightarrow> ('a \<Rightarrow> 's \<Rightarrow> error + 's) \<Rightarrow> 's \<Rightarrow> error + 's" where
  "for_each [] body s = Inr s"
| "for_each (x # xs) body s = bind_res (body x s) (for_each xs body)"

subsection \<open>allocation_manager.py\<close>

definition calculate_utilities :: "player list \<Rightarrow> allocation \<Rightarrow> error + allocation" where
  "calculate_utilities players a =
     for_each players
       (\<lambda>player al.
          bind_res (sum_valuations player (get_assignment al (name player)))
            (\<lambda>utility. Inr (set_utility al (name player) utility)))
       a"

subsection \<open>allocation_checker.py\<close>

text \<open>
  The innermost loop of \<open>check_EFX\<close> over the goods to remove; the result is the final
  value of \<open>envy_detected\<close>.
\<close>

fun envy_detected_loop :: "player \<Rightarrow> real \<Rightarrow> good list \<Rightarrow> good list \<Rightarrow> error + bool" where
  "envy_detected_loop player_i player_i_utility player_j_goods [] = Inr True"
| "envy_detected_loop player_i player_i_utility player_j_goods (good_to_remove # rest) =
     bind_res
       (sum_valuations player_i (filter (\<lambda>g. g \<noteq> good_to_remove) player_j_goods))
       (\<lambda>reduced.
          if player_i_utility \<ge> reduced then Inr False
          else envy_detected_loop player_i player_i_utility player_j_goods rest)"

text \<open>
  The loop over \<open>j\<close> for a fixed \<open>i\<close>: \<open>Inr False\<close> is the \<open>return False\<close> of the
  source, \<open>Inr True\<close> means that the loop ran to its end.
\<close>

fun check_EFX_inner :: "allocation \<Rightarrow> nat \<Rightarrow> player \<Rightarrow> (nat \<times> player) list \<Rightarrow> error + bool" where
  "check_EFX_inner a i player_i [] = Inr True"
| "check_EFX_inner a i player_i ((j, player_j) # rest) =
     (if i = j then check_EFX_inner a i player_i rest
      else
        let player_i_utility = get_utility a (name player_i);
            player_j_goods = get_assignment a (name player_j)
        in if player_j_goods = [] then check_EFX_inner a i player_i rest
           else bind_res
                  (envy_detected_loop player_i player_i_utility player_j_goods player_j_goods)
                  (\<lambda>envy_detected.
                     if envy_detected then Inr False
                     else check_EFX_inner a i player_i rest))"

fun check_EFX_outer :: "allocation \<Rightarrow> (nat \<times> player) list \<Rightarrow> (nat \<times> player) list \<Rightarrow> error + bool" where
  "check_EFX_outer a all_players [] = Inr True"
| "check_EFX_outer a all_players ((i, player_i) # rest) =
     bind_res (check_EFX_inner a i player_i all_players)
       (\<lambda>ok. if ok then check_EFX_outer a all_players rest else Inr False)"

definition check_EFX :: "player list \<Rightarrow> allocation \<Rightarrow> error + bool" where
  "check_EFX players a =
     check_EFX_outer a (enumerate 0 players) (enumerate 0 players)"

subsection \<open>allocation_finder.py: envy matrices\<close>

type_synonym matrix = "pname \<rightharpoonup> (pname \<rightharpoonup> real)"
type_synonym envy_result = "matrix \<times> real \<times> (pname \<rightharpoonup> real)"

text \<open>\<open>m[i][j] = v\<close> and \<open>t[i] += v\<close> on dicts; a missing key \<open>i\<close> raises.\<close>

definition matrix_set :: "matrix \<Rightarrow> pname \<Rightarrow> pname \<Rightarrow> real \<Rightarrow> error + matrix" where
  "matrix_set m i j v =
     (case m i of None \<Rightarrow> Inl KeyError | Some row \<Rightarrow> Inr (m(i \<mapsto> row(j \<mapsto> v))))"

definition totals_add :: "(pname \<rightharpoonup> real) \<Rightarrow> pname \<Rightarrow> real \<Rightarrow> error + (pname \<rightharpoonup> real)" where
  "totals_add t i v =
     (case t i of None \<Rightarrow> Inl KeyError | Some x \<Rightarrow> Inr (t(i \<mapsto> x + v)))"

definition envy_pair ::
  "allocation \<Rightarrow> player \<Rightarrow> real \<Rightarrow> player \<Rightarrow> envy_result \<Rightarrow> error + envy_result" where
  "envy_pair a player_i player_i_utility player_j =
     (\<lambda>(envy_matrix, total_envy, individual_envy_totals).
        if name player_i = name player_j
        then bind_res (matrix_set envy_matrix (name player_i) (name player_j) 0)
               (\<lambda>m. Inr (m, total_envy, individual_envy_totals))
        else
          bind_res (sum_valuations player_i (get_assignment a (name player_j)))
            (\<lambda>player_i_valuation_of_j_bundle.
               let envy = max 0 (player_i_valuation_of_j_bundle - player_i_utility) in
               bind_res (matrix_set envy_matrix (name player_i) (name player_j) envy) (\<lambda>m.
               bind_res (totals_add individual_envy_totals (name player_i) envy) (\<lambda>ind.
               Inr (m, total_envy + envy, ind)))))"

definition calculate_envy_matrix :: "player list \<Rightarrow> allocation \<Rightarrow> error + envy_result" where
  "calculate_envy_matrix players a =
     for_each players
       (\<lambda>player_i (envy_matrix, total_envy, individual_envy_totals).
          bind_res (sum_valuations player_i (get_assignment a (name player_i)))
            (\<lambda>player_i_utility.
               for_each players (envy_pair a player_i player_i_utility)
                 (envy_matrix(name player_i \<mapsto> Map.empty), total_envy,
                  individual_envy_totals(name player_i \<mapsto> 0))))
       (Map.empty, 0, Map.empty)"

text \<open>
  The search for the item of the bundle that \<open>player_i\<close> values least. The state is
  \<open>(least_valued_item, least_value)\<close>; \<open>None\<close> stands for the initial \<open>None\<close> and
  \<open>float('inf')\<close>.
\<close>

definition least_valued_step ::
  "player \<Rightarrow> good \<Rightarrow> good option \<times> real option \<Rightarrow> error + (good option \<times> real option)" where
  "least_valued_step player_i good =
     (\<lambda>(least_valued_item, least_value).
        bind_res (get_valuation player_i good)
          (\<lambda>v. if (case least_value of None \<Rightarrow> True | Some l \<Rightarrow> v < l)
                then Inr (Some good, Some v)
                else Inr (least_valued_item, least_value)))"

definition efx_envy_pair ::
  "allocation \<Rightarrow> player \<Rightarrow> real \<Rightarrow> player \<Rightarrow> envy_result \<Rightarrow> error + envy_result" where
  "efx_envy_pair a player_i player_i_utility player_j =
     (\<lambda>(efx_envy_matrix, total_efx_envy, individual_efx_envy_totals).
        if name player_i = name player_j
        then bind_res (matrix_set efx_envy_matrix (name player_i) (name player_j) 0)
               (\<lambda>m. Inr (m, total_efx_envy, individual_efx_envy_totals))
        else
          let player_j_bundle = get_assignment a (name player_j) in
          if player_j_bundle = []
          then bind_res (matrix_set efx_envy_matrix (name player_i) (name player_j) 0)
                 (\<lambda>m. Inr (m, total_efx_envy, individual_efx_envy_totals))
          else
            bind_res (for_each player_j_bundle (least_valued_step player_i) (None, None))
              (\<lambda>(least_valued_item, least_value).
                 bind_res
                   (sum_valuations player_i
                      (filter (\<lambda>g. Some g \<noteq> least_valued_item) player_j_bundle))
                   (\<lambda>reduced_bundle_value.
                      let efx_envy = max 0 (reduced_bundle_value - player_i_utility) in
                      bind_res (matrix_set efx_envy_matrix (name player_i) (name player_j) efx_envy)
                        (\<lambda>m.
                      bind_res (totals_add individual_efx_envy_totals (name player_i) efx_envy)
                        (\<lambda>ind.
                      Inr (m, total_efx_envy + efx_envy, ind))))))"

definition calculate_efx_envy_matrix :: "player list \<Rightarrow> allocation \<Rightarrow> error + envy_result" where
  "calculate_efx_envy_matrix players a =
     for_each players
       (\<lambda>player_i (efx_envy_matrix, total_efx_envy, individual_efx_envy_totals).
          bind_res (sum_valuations player_i (get_assignment a (name player_i)))
            (\<lambda>player_i_utility.
               for_each players (efx_envy_pair a player_i player_i_utility)
                 (efx_envy_matrix(name player_i \<mapsto> Map.empty), total_efx_envy,
                  individual_efx_envy_totals(name player_i \<mapsto> 0))))
       (Map.empty, 0, Map.empty)"

subsection \<open>allocation_finder.py: champion graph and source assignment\<close>


definition dict_get :: "('k \<rightharpoonup> 'v) \<Rightarrow> 'k \<Rightarrow> error + 'v" where
  "dict_get d k = (case d k of None \<Rightarrow> Inl KeyError | Some v \<Rightarrow> Inr v)"








text \<open>\<open>next(p for p in self.players if p.name == n)\<close>\<close>

definition next_player :: "player list \<Rightarrow> pname \<Rightarrow> error + player" where
  "next_player players n =
     (case find (\<lambda>p. name p = n) players of None \<Rightarrow> Inl StopIteration | Some p \<Rightarrow> Inr p)"





subsection \<open>allocation_finder.py: cut and choose\<close>

text \<open>
  \<open>sorted(goods, key=get_valuation, reverse=True)\<close>: the keys are computed first, in
  order, and the sort is stable, also with \<open>reverse=True\<close>.
\<close>

definition sorted_by_valuation_desc :: "player \<Rightarrow> good list \<Rightarrow> error + good list" where
  "sorted_by_valuation_desc p goods =
     bind_res (map_res (\<lambda>g. bind_res (get_valuation p g) (\<lambda>v. Inr (v, g))) goods)
       (\<lambda>keyed. Inr (map snd (sort_key (\<lambda>(v, g). - v) keyed)))"

text \<open>The state of the split loop is \<open>(bundle1, bundle2, current_bundle)\<close>.\<close>

definition split_step ::
  "player \<Rightarrow> nat \<Rightarrow> good \<Rightarrow> good list \<times> good list \<times> nat
     \<Rightarrow> error + (good list \<times> good list \<times> nat)" where
  "split_step p n good =
     (\<lambda>(bundle1, bundle2, current_bundle).
        bind_res (get_valuation p good) (\<lambda>v.
          if current_bundle = 1
          then
            bind_res (sum_valuations p (bundle1 @ [good])) (\<lambda>value1.
            bind_res (sum_valuations p bundle2) (\<lambda>value2.
              if value1 > value2 \<and> n > length (bundle1 @ [good])
              then Inr (bundle1 @ [good], bundle2, 2)
              else Inr (bundle1 @ [good], bundle2, 1)))
          else
            bind_res (sum_valuations p bundle1) (\<lambda>value1.
            bind_res (sum_valuations p (bundle2 @ [good])) (\<lambda>value2.
              if value2 > value1 \<and> n > length bundle1 + length (bundle2 @ [good])
              then Inr (bundle1, bundle2 @ [good], 1)
              else Inr (bundle1, bundle2 @ [good], 2)))))"

text \<open>Moving one item over when a bundle came out empty (\<open>pop\<close> takes the last item).\<close>

definition ensure_nonempty :: "good list \<times> good list \<Rightarrow> good list \<times> good list" where
  "ensure_nonempty =
     (\<lambda>(bundle1, bundle2).
        if bundle1 = [] \<or> bundle2 = []
        then (if bundle1 = [] \<and> bundle2 \<noteq> [] then ([last bundle2], butlast bundle2)
              else if bundle2 = [] \<and> bundle1 \<noteq> [] then (butlast bundle1, [last bundle1])
              else (bundle1, bundle2))
        else (bundle1, bundle2))"

definition create_efx_bundles_split_division ::
  "player \<Rightarrow> good list \<Rightarrow> error + (good list \<times> good list) option" where
  "create_efx_bundles_split_division p goods =
     (if length goods < 2 then Inr None
      else
        bind_res (sorted_by_valuation_desc p goods) (\<lambda>sorted_goods.
        bind_res (for_each sorted_goods (split_step p (length sorted_goods)) ([], [], 1))
          (\<lambda>(bundle1, bundle2, current_bundle).
             case ensure_nonempty (bundle1, bundle2) of (b1, b2) \<Rightarrow>
               bind_res (sum_valuations p b1) (\<lambda>final_value1.
               bind_res (sum_valuations p b2) (\<lambda>final_value2.
               Inr (Some (b1, b2)))))))"

text \<open>
  One scenario of \<open>_is_division_efx_for_player\<close>: the player holds a bundle worth \<open>v\<close> and
  must not envy \<open>other\<close> after the removal of any item; \<open>Inr False\<close> is the
  \<open>return False\<close>.
\<close>

fun division_scan :: "player \<Rightarrow> real \<Rightarrow> good list \<Rightarrow> good list \<Rightarrow> error + bool" where
  "division_scan p v other [] = Inr True"
| "division_scan p v other (item_to_remove # rest) =
     bind_res (sum_valuations p (filter (\<lambda>g. g \<noteq> item_to_remove) other))
       (\<lambda>value_reduced. if v < value_reduced then Inr False else division_scan p v other rest)"

definition is_division_efx_for_player :: "player \<Rightarrow> good list \<Rightarrow> good list \<Rightarrow> error + bool" where
  "is_division_efx_for_player p bundle_a bundle_b =
     (if bundle_a = [] \<or> bundle_b = [] then Inr False
      else
        bind_res (sum_valuations p bundle_a) (\<lambda>value_a.
        bind_res (sum_valuations p bundle_b) (\<lambda>value_b.
        bind_res (division_scan p value_a bundle_b bundle_b) (\<lambda>ok.
          if \<not> ok then Inr False else division_scan p value_b bundle_a bundle_a))))"

definition find_efx_division_for_envier ::
  "player \<Rightarrow> good list \<Rightarrow> error + (good list \<times> good list) option" where
  "find_efx_division_for_envier envier all_goods =
     (if length all_goods < 2 then Inr None
      else
        bind_res (create_efx_bundles_split_division envier all_goods) (\<lambda>split_division.
          case split_division of
            None \<Rightarrow> Inr None
          | Some (b1, b2) \<Rightarrow>
              bind_res (is_division_efx_for_player envier b1 b2)
                (\<lambda>ok. if ok then Inr (Some (b1, b2)) else Inr None)))"

subsection \<open>allocation_finder.py: the redistribution phase\<close>

definition get_envy_relationships :: "player list \<Rightarrow> allocation \<Rightarrow> error + (pname \<times> pname) list" where
  "get_envy_relationships players a =
     bind_res (calculate_efx_envy_matrix players a)
       (\<lambda>(efx_envy_matrix, total, individual).
          for_each players
            (\<lambda>player_i rels.
               for_each players
                 (\<lambda>player_j rels.
                    if name player_i \<noteq> name player_j
                    then bind_res (dict_get efx_envy_matrix (name player_i)) (\<lambda>row.
                         bind_res (dict_get row (name player_j)) (\<lambda>efx_envy.
                           if efx_envy > 0
                           then Inr (rels @ [(name player_i, name player_j)])
                           else Inr rels))
                    else Inr rels)
                 rels)
            [])"

text \<open>
  The state fingerprint. The source takes the \<open>hash\<close> of the tuple
  \<open>(frozenset(queue), (name, sorted goods) for every involved name in sorted order)\<close>;
  the model keeps the tuple itself, so two states have the same fingerprint exactly when
  their tuples are equal.
\<close>

type_synonym fingerprint = "(pname \<times> pname) set \<times> (pname \<times> good list) list"

definition create_phase2_state_hash :: "(pname \<times> pname) list \<Rightarrow> allocation \<Rightarrow> fingerprint" where
  "create_phase2_state_hash envy_relationships a =
     (let involved_players =
            remdups (concat (map (\<lambda>(envier, envied). [envier, envied]) envy_relationships))
      in (set envy_relationships,
          map (\<lambda>player_name. (player_name, sort (get_assignment a player_name)))
            (sort involved_players)))"

definition efx_envy_total :: "player list \<Rightarrow> allocation \<Rightarrow> error + real" where
  "efx_envy_total players a =
     bind_res (calculate_efx_envy_matrix players a) (\<lambda>(m, total, individual). Inr total)"

definition envy_total :: "player list \<Rightarrow> allocation \<Rightarrow> error + real" where
  "envy_total players a =
     bind_res (calculate_envy_matrix players a) (\<lambda>(m, total, individual). Inr total)"

text \<open>
  The cut and choose of one step, up to the test allocation with its utilities:
  \<open>Inr None\<close> is a \<open>continue\<close> (fewer than two goods, or no division that is EFX for the
  envier).
\<close>

definition cut_and_choose ::
  "player list \<Rightarrow> allocation \<Rightarrow> pname \<Rightarrow> pname \<Rightarrow> error + allocation option" where
  "cut_and_choose players current envier_name envied_name =
     bind_res (next_player players envier_name) (\<lambda>envier_obj.
     bind_res (next_player players envied_name) (\<lambda>envied_obj.
     let all_goods = get_assignment current envier_name @ get_assignment current envied_name in
     if length all_goods < 2 then Inr None
     else
       bind_res (find_efx_division_for_envier envier_obj all_goods) (\<lambda>efx_division.
         case efx_division of
           None \<Rightarrow> Inr None
         | Some (bundle_a, bundle_b) \<Rightarrow>
             bind_res (sum_valuations envied_obj bundle_a) (\<lambda>envied_value_a.
             bind_res (sum_valuations envied_obj bundle_b) (\<lambda>envied_value_b.
             let (envied_chosen, envier_gets) =
                   (if envied_value_a \<ge> envied_value_b then (bundle_a, bundle_b)
                    else (bundle_b, bundle_a));
                 test_allocation =
                   fold (\<lambda>player t.
                           if name player = envier_name
                           then set_assignment t (name player) envier_gets
                           else if name player = envied_name
                           then set_assignment t (name player) envied_chosen
                           else set_assignment t (name player)
                                  (get_assignment current (name player)))
                     players Allocation
             in bind_res (calculate_utilities players test_allocation)
                  (\<lambda>t. Inr (Some t)))))))"

record phase2_state =
  envy_relationships :: "(pname \<times> pname) list"
  current_allocation :: allocation
  seen_states :: "fingerprint list"
  step :: nat

datatype phase2_outcome = Continue phase2_state | Return allocation nat

text \<open>
  One iteration of the \<open>while\<close> loop, entered with a nonempty queue. \<open>Return\<close> is the
  early \<open>return current_allocation, step\<close>; \<open>Continue\<close> carries the variables into the
  next test of the loop condition.
\<close>

definition phase2_body :: "player list \<Rightarrow> phase2_state \<Rightarrow> error + phase2_outcome" where
  "phase2_body players st =
     (let step' = step st + 1;
          state_hash = create_phase2_state_hash (envy_relationships st) (current_allocation st)
      in
        if state_hash \<in> set (seen_states st) then Inl CycleDetected
        else
          let seen = state_hash # seen_states st in
          case envy_relationships st of
            [] \<Rightarrow> Inl IndexError
          | (envier_name, envied_name) # rest \<Rightarrow>
              bind_res (efx_envy_total players (current_allocation st)) (\<lambda>current_efx_envy.
              bind_res (envy_total players (current_allocation st)) (\<lambda>current_regular_envy.
              bind_res (cut_and_choose players (current_allocation st) envier_name envied_name)
                (\<lambda>candidate.
                   case candidate of
                     None \<Rightarrow>
                       Inr (Continue \<lparr> envy_relationships = rest,
                                      current_allocation = current_allocation st,
                                      seen_states = seen, step = step' \<rparr>)
                   | Some test_allocation \<Rightarrow>
                       bind_res (efx_envy_total players test_allocation) (\<lambda>new_efx_envy.
                       bind_res (envy_total players test_allocation) (\<lambda>new_regular_envy.
                       bind_res
                         (if new_efx_envy < current_efx_envy
                          then bind_res (get_envy_relationships players test_allocation)
                                 (\<lambda>rels. Inr \<lparr> envy_relationships = rels,
                                              current_allocation = test_allocation,
                                              seen_states = [], step = step' \<rparr>)
                          else Inr \<lparr> envy_relationships = rest,
                                     current_allocation = current_allocation st,
                                     seen_states = seen, step = step' \<rparr>)
                         (\<lambda>st'.
                            bind_res (efx_envy_total players (current_allocation st'))
                              (\<lambda>step_final_efx_envy.
                            bind_res (envy_total players (current_allocation st'))
                              (\<lambda>step_final_regular_envy.
                               if step_final_efx_envy = 0
                               then Inr (Return (current_allocation st') step')
                               else Inr (Continue st'))))))))))"

text \<open>What is left of \<open>_phase2_stepwise_redistribution\<close> once the loop has ended.\<close>

definition phase2_final :: "player list \<Rightarrow> phase2_state \<Rightarrow> error + (allocation \<times> nat)" where
  "phase2_final players st =
     bind_res (efx_envy_total players (current_allocation st)) (\<lambda>final_efx_envy.
     bind_res (envy_total players (current_allocation st)) (\<lambda>final_regular_envy.
       if final_efx_envy = 0 then Inr (current_allocation st, step st)
       else Inl NoValidRedistribution))"

subsection \<open>allocation_finder.py: normalization of all players, allocation objects\<close>



subsection \<open>The scenario of tests/test_efx_checker.py\<close>

definition create_test_players :: "player list" where
  "create_test_players =
     [Player ''P1'' [(''A'', 5), (''B'', 3), (''C'', 1), (''D'', 2)],
      Player ''P2'' [(''A'', 2), (''B'', 5), (''C'', 3), (''D'', 1)],
      Player ''P3'' [(''A'', 1), (''B'', 2), (''C'', 5), (''D'', 3)],
      Player ''P4'' [(''A'', 3), (''B'', 1), (''C'', 2), (''D'', 5)]]"


definition test_case_2 :: allocation where
  "test_case_2 =
     \<lparr> assignments = [''P1'' \<mapsto> [''A'', ''D''], ''P2'' \<mapsto> [''B''], ''P3'' \<mapsto> [''C''],
                      ''P4'' \<mapsto> []],
       utilities = [''P1'' \<mapsto> 7, ''P2'' \<mapsto> 5, ''P3'' \<mapsto> 5, ''P4'' \<mapsto> 0] \<rparr>"


subsection \<open>Notions used to state the properties\<close>

text \<open>
  \<open>v_i(g)\<close> and \<open>v_i(S)\<close> for a player whose table has the good; \<open>covers\<close> says that
  every player of the list has a valuation for every good of every bundle, the case in
  which no lookup raises.
\<close>

definition val :: "player \<Rightarrow> good \<Rightarrow> real" where
  "val p g = (case map_of (active_table p) g of Some v \<Rightarrow> v | None \<Rightarrow> 0)"

definition bundle_value :: "player \<Rightarrow> good list \<Rightarrow> real" where
  "bundle_value p gs = sum_list (map (val p) gs)"

definition knows :: "player \<Rightarrow> good list \<Rightarrow> bool" where
  "knows p gs = list_all (\<lambda>g. map_of (active_table p) g \<noteq> None) gs"

definition covers :: "player list \<Rightarrow> allocation \<Rightarrow> bool" where
  "covers players a =
     list_all (\<lambda>p. list_all (\<lambda>q. knows p (get_assignment a (name q))) players) players"

definition entry :: "matrix \<Rightarrow> pname \<Rightarrow> pname \<Rightarrow> real option" where
  "entry m i j = (case m i of None \<Rightarrow> None | Some row \<Rightarrow> row j)"



text \<open>
  The player whose name is \<open>n\<close>; were a name used twice, the entry of the later player
  would overwrite the earlier one in every dict keyed by names.
\<close>

definition last_named :: "pname \<Rightarrow> player list \<Rightarrow> player option" where
  "last_named n ps = find (\<lambda>p. name p = n) (rev ps)"

text \<open>\<open>envy(i,j) = max(0, v_i(X_j) - v_i(X_i))\<close>, and 0 for a player and itself.\<close>

definition envy_value :: "allocation \<Rightarrow> player \<Rightarrow> player \<Rightarrow> real" where
  "envy_value a p_i p_j =
     (if name p_i = name p_j then 0
      else max 0 (bundle_value p_i (get_assignment a (name p_j))
                  - bundle_value p_i (get_assignment a (name p_i))))"

text \<open>The least-valued-item search when every lookup succeeds.\<close>

definition least_valued_pure ::
  "player \<Rightarrow> good \<Rightarrow> good option \<times> real option \<Rightarrow> good option \<times> real option" where
  "least_valued_pure p g =
     (\<lambda>(item, lv). if (case lv of None \<Rightarrow> True | Some l \<Rightarrow> val p g < l)
                     then (Some g, Some (val p g)) else (item, lv))"

definition least_valued_item :: "player \<Rightarrow> good list \<Rightarrow> good option" where
  "least_valued_item p gs = fst (fold (least_valued_pure p) gs (None, None))"

text \<open>
  \<open>efx_envy(i,j)\<close>: 0 for a player and itself and for an empty bundle; otherwise the
  envy left once every copy of the least valued item is removed from the bundle.
\<close>

definition efx_envy_value :: "allocation \<Rightarrow> player \<Rightarrow> player \<Rightarrow> real" where
  "efx_envy_value a p_i p_j =
     (if name p_i = name p_j then 0
      else if get_assignment a (name p_j) = [] then 0
      else max 0 (bundle_value p_i
                    (filter (\<lambda>g. Some g \<noteq> least_valued_item p_i (get_assignment a (name p_j)))
                       (get_assignment a (name p_j)))
                  - bundle_value p_i (get_assignment a (name p_i))))"

text \<open>The matrix, the grand total and the row totals that the two matrix functions return.\<close>

definition matrix_of :: "(player \<Rightarrow> player \<Rightarrow> real) \<Rightarrow> player list \<Rightarrow> envy_result" where
  "matrix_of e players =
     ((\<lambda>n. case last_named n players of None \<Rightarrow> None
           | Some p_i \<Rightarrow> Some (\<lambda>m. case last_named m players of None \<Rightarrow> None
                                   | Some p_j \<Rightarrow> Some (e p_i p_j))),
      sum_list (map (\<lambda>p_i. sum_list (map (e p_i) players)) players),
      (\<lambda>n. case last_named n players of None \<Rightarrow> None
           | Some p_i \<Rightarrow> Some (sum_list (map (e p_i) players))))"

text \<open>Every player values every good of every bundle at 0 or more.\<close>

definition nonneg_on :: "player list \<Rightarrow> allocation \<Rightarrow> bool" where
  "nonneg_on players a =
     list_all (\<lambda>p. list_all (\<lambda>q. list_all (\<lambda>g. 0 \<le> val p g) (get_assignment a (name q))) players)
       players"

text \<open>The entry \<open>m[i][j]\<close> of a returned matrix.\<close>

definition matrix_entry :: "error + envy_result \<Rightarrow> pname \<Rightarrow> pname \<Rightarrow> real option" where
  "matrix_entry r i j = (case r of Inl e \<Rightarrow> None | Inr (m, t, ind) \<Rightarrow> entry m i j)"







text \<open>
  The \<open>while envy_relationships:\<close> loop, followed by the final check. Its termination
  is proved below, after the facts about one iteration.
\<close>

function phase2_loop :: "player list \<Rightarrow> phase2_state \<Rightarrow> error + (allocation \<times> nat)" where
  "phase2_loop players st =
     (if envy_relationships st = [] then phase2_final players st
      else
        (case phase2_body players st of
           Inl e \<Rightarrow> Inl e
         | Inr (Return a n) \<Rightarrow> Inr (a, n)
         | Inr (Continue st') \<Rightarrow> phase2_loop players st'))"
  by pat_completeness auto

text \<open>
  \<open>_phase2_stepwise_redistribution\<close>: the queue and the initial totals are computed, then
  the loop runs from step 0 with no state seen. (The list of regular envy relationships
  that the source builds next is only printed; every entry it reads exists.)
\<close>

definition phase2_stepwise_redistribution ::
  "player list \<Rightarrow> allocation \<Rightarrow> error + (allocation \<times> nat)" where
  "phase2_stepwise_redistribution players a =
     bind_res (get_envy_relationships players a) (\<lambda>rels.
     bind_res (efx_envy_total players a) (\<lambda>initial_efx_envy.
     bind_res (envy_total players a) (\<lambda>initial_regular_envy.
     phase2_loop players
       \<lparr> envy_relationships = rels, current_allocation = a, seen_states = [], step = 0 \<rparr>)))"

text \<open>A queue whose pairs relate two different names, as every computed queue does.\<close>

definition good_queue :: "(pname \<times> pname) list \<Rightarrow> bool" where
  "good_queue q = list_all (\<lambda>(envier, envied). envier \<noteq> envied) q"

text \<open>The goods held by the players, with multiplicity.\<close>

definition held_goods :: "player list \<Rightarrow> allocation \<Rightarrow> good multiset" where
  "held_goods players a =
     sum_list (map (\<lambda>n. mset (get_assignment a n)) (remdups (map name players)))"

text \<open>The total EFX-envy as a number (0 where its computation raises).\<close>

definition efx_total :: "player list \<Rightarrow> allocation \<Rightarrow> real" where
  "efx_total players a = (case efx_envy_total players a of Inr t \<Rightarrow> t | Inl e \<Rightarrow> 0)"

text \<open>
  The bundles of the players in the order of their names, and an allocation with given
  bundles: the total EFX-envy depends on the allocation through these bundles only.
\<close>

definition bundles :: "player list \<Rightarrow> allocation \<Rightarrow> good list list" where
  "bundles players a = map (get_assignment a) (remdups (map name players))"

definition of_bundles :: "player list \<Rightarrow> good list list \<Rightarrow> allocation" where
  "of_bundles players v = Allocation\<lparr> assignments := map_of (zip (remdups (map name players)) v) \<rparr>"

text \<open>
  The totals of all allocations of the same goods, finitely many, and the number of them
  below the total of \<open>a\<close>: an accepted redistribution lowers this rank.
\<close>

definition reachable_totals :: "player list \<Rightarrow> allocation \<Rightarrow> real set" where
  "reachable_totals players a =
     {t. \<exists>b. held_goods players b = held_goods players a \<and> efx_total players b = t}"

definition alloc_rank :: "player list \<Rightarrow> allocation \<Rightarrow> nat" where
  "alloc_rank players a = card {t \<in> reachable_totals players a. t < efx_total players a}"

text \<open>
  The measure of the loop: whether the queue has a pair of equal names (only a queue
  handed in from outside can), then the rank of the allocation, then the length of the
  queue.
\<close>

definition phase2_measure :: "player list \<times> phase2_state \<Rightarrow> nat \<times> nat \<times> nat" where
  "phase2_measure =
     (\<lambda>(players, st).
        (if good_queue (envy_relationships st) then 0 else 1,
         alloc_rank players (current_allocation st),
         length (envy_relationships st)))"





section \<open>Basic facts\<close>

lemma bind_res_Inr [simp]: "bind_res (Inr x) f = f x"
  by (simp add: bind_res_def)

lemma bind_res_Inl [simp]: "bind_res (Inl e) f = Inl e"
  by (simp add: bind_res_def)


section \<open>Allocation queries\<close>

text \<open>
  C10. For an allocation and a player name with no recorded entry, \<open>get_assignment\<close>
  returns the empty list and \<open>get_utility\<close> returns 0: the query never fails and the
  unknown player behaves as one with an empty bundle and zero utility.
\<close>

theorem get_unrecorded_player:
  "(assignments a player_name = None \<longrightarrow> get_assignment a player_name = [])
   \<and> (utilities a player_name = None \<longrightarrow> get_utility a player_name = 0)"
  by (simp add: get_assignment_def get_utility_def)

theorem get_unrecorded_player_witness:
  "assignments (set_assignment Allocation ''P1'' [''A'']) ''P9'' = None
   \<and> get_assignment (set_assignment Allocation ''P1'' [''A'']) ''P9'' = []
   \<and> utilities (set_utility Allocation ''P1'' 5) ''P9'' = None
   \<and> get_utility (set_utility Allocation ''P1'' 5) ''P9'' = 0"
  using get_unrecorded_player [of "set_assignment Allocation ''P1'' [''A'']" "''P9''"]
    get_unrecorded_player [of "set_utility Allocation ''P1'' 5" "''P9''"]
  by (simp add: set_assignment_def set_utility_def Allocation_def)

section \<open>Construction of the core components\<close>

text \<open>
  C8 as stated fails: the constructors look at the number of players only. A player
  whose valuation table has no entry for a good of the goods list is accepted.
\<close>

theorem construct_missing_valuation_counterexample:
  "get_valuation (Player ''P1'' []) ''A'' = Inl KeyError
   \<and> construct_core
         [Player ''P1'' [], Player ''P2'' [(''A'', 1)], Player ''P3'' [(''A'', 1)],
          Player ''P4'' [(''A'', 1)]] [''A'']
       = Inr \<lparr> f_manager =
                 \<lparr> m_players = [Player ''P1'' [], Player ''P2'' [(''A'', 1)],
                                Player ''P3'' [(''A'', 1)], Player ''P4'' [(''A'', 1)]],
                   m_goods = [''A''] \<rparr>,
               f_checker =
                 \<lparr> c_players = [Player ''P1'' [], Player ''P2'' [(''A'', 1)],
                                Player ''P3'' [(''A'', 1)], Player ''P4'' [(''A'', 1)]] \<rparr> \<rparr>"
  by (simp add: get_valuation_def active_table_def Player_def construct_core_def
      AllocationManager_def AllocationChecker_def AllocationFinder_def)

text \<open>
  C8, amended. Each constructor raises the validation error exactly when the number of
  players is not four, and then no object is produced; with four players construction
  succeeds and stores the players and goods as given, whatever their valuation tables
  contain.
\<close>

theorem construct_fails_iff_not_four_players:
  "AllocationManager players goods =
     (if length players \<noteq> 4 then Inl ValueError
      else Inr \<lparr> m_players = players, m_goods = goods \<rparr>)
   \<and> AllocationChecker players =
     (if length players \<noteq> 4 then Inl ValueError else Inr \<lparr> c_players = players \<rparr>)
   \<and> AllocationFinder \<lparr> m_players = players, m_goods = goods \<rparr> checker =
     (if length players \<noteq> 4 then Inl ValueError
      else Inr \<lparr> f_manager = \<lparr> m_players = players, m_goods = goods \<rparr>,
                 f_checker = checker \<rparr>)
   \<and> construct_core players goods =
     (if length players \<noteq> 4 then Inl ValueError
      else Inr \<lparr> f_manager = \<lparr> m_players = players, m_goods = goods \<rparr>,
                 f_checker = \<lparr> c_players = players \<rparr> \<rparr>)"
  by (simp add: construct_core_def AllocationManager_def AllocationChecker_def
      AllocationFinder_def)

theorem construct_fails_iff_not_four_players_witness:
  "construct_core [Player ''P1'' [], Player ''P2'' [], Player ''P3'' []] [''A''] = Inl ValueError
   \<and> construct_core [Player ''P1'' [], Player ''P2'' [], Player ''P3'' [], Player ''P4'' []] [''A'']
       = Inr \<lparr> f_manager = \<lparr> m_players = [Player ''P1'' [], Player ''P2'' [], Player ''P3'' [],
                                             Player ''P4'' []],
                               m_goods = [''A''] \<rparr>,
               f_checker = \<lparr> c_players = [Player ''P1'' [], Player ''P2'' [], Player ''P3'' [],
                                             Player ''P4'' []] \<rparr> \<rparr>"
  using construct_fails_iff_not_four_players
          [of "[Player ''P1'' [], Player ''P2'' [], Player ''P3'' []]" "[''A'']"]
        construct_fails_iff_not_four_players
          [of "[Player ''P1'' [], Player ''P2'' [], Player ''P3'' [], Player ''P4'' []]" "[''A'']"]
  by simp

section \<open>Normalization\<close>

subsection \<open>Rounding\<close>

















subsection \<open>The result of normalization\<close>



lemma map_snd_scaled: "map snd (map (\<lambda>(good, v). (good, f v)) xs) = map f (map snd xs)"
  by (induction xs) auto






















section \<open>The EFX check\<close>

lemma get_valuation_knows:
  "map_of (active_table p) g \<noteq> None \<Longrightarrow> get_valuation p g = Inr (val p g)"
  by (auto simp: get_valuation_def val_def)

lemma sum_valuations_knows:
  "knows p gs \<Longrightarrow> sum_valuations p gs = Inr (bundle_value p gs)"
  by (induction gs) (auto simp: knows_def bundle_value_def get_valuation_knows)

lemma knows_filter: "knows p gs \<Longrightarrow> knows p (filter P gs)"
  by (simp add: knows_def list_all_iff)

lemma covers_knows:
  "covers players a \<Longrightarrow> p \<in> set players \<Longrightarrow> q \<in> set players
   \<Longrightarrow> knows p (get_assignment a (name q))"
  by (simp add: covers_def list_all_iff)







lemmas eval_defs = check_EFX_def get_utility_def get_assignment_def get_valuation_def
  active_table_def Player_def create_test_players_def








section \<open>The envy matrices\<close>

lemma find_append:
  "find P (xs @ ys) = (case find P xs of None \<Rightarrow> find P ys | Some x \<Rightarrow> Some x)"
  by (induction xs) auto

lemma last_named_Cons:
  "last_named n (p # ps) =
     (case last_named n ps of None \<Rightarrow> (if name p = n then Some p else None) | Some q \<Rightarrow> Some q)"
  by (simp add: last_named_def find_append split: option.splits)

lemma last_named_Nil [simp]: "last_named n [] = None"
  by (simp add: last_named_def)

lemma last_named_distinct:
  "distinct (map name ps) \<Longrightarrow> p \<in> set ps \<Longrightarrow> last_named (name p) ps = Some p"
proof (induction ps)
  case Nil
  then show ?case by simp
next
  case (Cons q ps)
  show ?case
  proof (cases "p \<in> set ps")
    case True
    with Cons show ?thesis by (simp add: last_named_Cons)
  next
    case False
    with Cons.prems have pq: "p = q" by simp
    have "name q \<notin> name ` set ps"
      using Cons.prems(1) by simp
    then have "\<forall>x \<in> set (rev ps). name x \<noteq> name q"
      by (metis imageI set_rev)
    then have "last_named (name q) ps = None"
      by (simp add: last_named_def find_None_iff)
    with pq show ?thesis by (simp add: last_named_Cons)
  qed
qed

text \<open>The closed form of one row loop.\<close>

lemma row_loop:
  assumes "\<And>p_j M T I row x. p_j \<in> set pjs \<Longrightarrow> M ni = Some row \<Longrightarrow> I ni = Some x \<Longrightarrow>
             f p_j (M, T, I) = Inr (M(ni \<mapsto> row(name p_j \<mapsto> e p_j)), T + e p_j, I(ni \<mapsto> x + e p_j))"
    and "M ni = Some row" and "I ni = Some x"
  shows "for_each pjs f (M, T, I) =
           Inr (M(ni \<mapsto> (\<lambda>n. case last_named n pjs of None \<Rightarrow> row n | Some p_j \<Rightarrow> Some (e p_j))),
                T + sum_list (map e pjs),
                I(ni \<mapsto> x + sum_list (map e pjs)))"
  using assms
proof (induction pjs arbitrary: M T I row x)
  case Nil
  then show ?case by (simp add: map_upd_triv)
next
  case (Cons p_j pjs)
  have step: "f p_j (M, T, I) = Inr (M(ni \<mapsto> row(name p_j \<mapsto> e p_j)), T + e p_j, I(ni \<mapsto> x + e p_j))"
    by (rule Cons.prems(1)) (simp_all add: Cons.prems(2,3))
  have IH: "for_each pjs f (M(ni \<mapsto> row(name p_j \<mapsto> e p_j)), T + e p_j, I(ni \<mapsto> x + e p_j)) =
      Inr ((M(ni \<mapsto> row(name p_j \<mapsto> e p_j)))(ni \<mapsto> (\<lambda>n. case last_named n pjs of None \<Rightarrow> (row(name p_j \<mapsto> e p_j)) n | Some p_j \<Rightarrow> Some (e p_j))),
           T + e p_j + sum_list (map e pjs),
           (I(ni \<mapsto> x + e p_j))(ni \<mapsto> x + e p_j + sum_list (map e pjs)))"
    proof (rule Cons.IH)
    show "(M(ni \<mapsto> row(name p_j \<mapsto> e p_j))) ni = Some (row(name p_j \<mapsto> e p_j))" by simp
    show "(I(ni \<mapsto> x + e p_j)) ni = Some (x + e p_j)" by simp
  qed (rule Cons.prems(1), simp_all)
  have rows: "(\<lambda>n. case last_named n pjs of None \<Rightarrow> (row(name p_j \<mapsto> e p_j)) n | Some p_j \<Rightarrow> Some (e p_j))
      = (\<lambda>n. case last_named n (p_j # pjs) of None \<Rightarrow> row n | Some p_j \<Rightarrow> Some (e p_j))"
    by (rule ext) (auto simp: last_named_Cons split: option.splits)
  have "for_each (p_j # pjs) f (M, T, I)
        = for_each pjs f (M(ni \<mapsto> row(name p_j \<mapsto> e p_j)), T + e p_j, I(ni \<mapsto> x + e p_j))"
    by (simp add: step)
  also note IH
  finally show ?case
    by (simp only: fun_upd_upd rows add.assoc list.map sum_list.Cons)
qed

lemma matrix_loop:
  assumes "\<And>p_i M T I. p_i \<in> set pis \<Longrightarrow>
             g p_i (M, T, I) = Inr (M(name p_i \<mapsto> R p_i), T + S p_i, I(name p_i \<mapsto> S p_i))"
  shows "for_each pis g (M, T, I) =
           Inr ((\<lambda>n. case last_named n pis of None \<Rightarrow> M n | Some p_i \<Rightarrow> Some (R p_i)),
                T + sum_list (map S pis),
                (\<lambda>n. case last_named n pis of None \<Rightarrow> I n | Some p_i \<Rightarrow> Some (S p_i)))"
  using assms
proof (induction pis arbitrary: M T I)
  case Nil
  then show ?case by simp
next
  case (Cons p_i pis)
  have step: "g p_i (M, T, I) = Inr (M(name p_i \<mapsto> R p_i), T + S p_i, I(name p_i \<mapsto> S p_i))"
    by (rule Cons.prems) simp
  have IH: "for_each pis g (M(name p_i \<mapsto> R p_i), T + S p_i, I(name p_i \<mapsto> S p_i)) =
           Inr ((\<lambda>n. case last_named n pis of None \<Rightarrow> (M(name p_i \<mapsto> R p_i)) n | Some p_i \<Rightarrow> Some (R p_i)),
                T + S p_i + sum_list (map S pis),
                (\<lambda>n. case last_named n pis of None \<Rightarrow> (I(name p_i \<mapsto> S p_i)) n | Some p_i \<Rightarrow> Some (S p_i)))"
    by (rule Cons.IH) (rule Cons.prems, simp)
  have m: "(\<lambda>n. case last_named n pis of None \<Rightarrow> (M(name p_i \<mapsto> R p_i)) n | Some p_i \<Rightarrow> Some (R p_i))
         = (\<lambda>n. case last_named n (p_i # pis) of None \<Rightarrow> M n | Some p_i \<Rightarrow> Some (R p_i))"
    by (rule ext) (auto simp: last_named_Cons split: option.splits)
  have i: "(\<lambda>n. case last_named n pis of None \<Rightarrow> (I(name p_i \<mapsto> S p_i)) n | Some p_i \<Rightarrow> Some (S p_i))
         = (\<lambda>n. case last_named n (p_i # pis) of None \<Rightarrow> I n | Some p_i \<Rightarrow> Some (S p_i))"
    by (rule ext) (auto simp: last_named_Cons split: option.splits)
  have "for_each (p_i # pis) g (M, T, I)
        = for_each pis g (M(name p_i \<mapsto> R p_i), T + S p_i, I(name p_i \<mapsto> S p_i))"
    by (simp add: step)
  also note IH
  finally show ?case
    by (simp only: m i add.assoc list.map sum_list.Cons)
qed

lemma least_loop:
  "knows p gs \<Longrightarrow> for_each gs (least_valued_step p) st = Inr (fold (least_valued_pure p) gs st)"
proof (induction gs arbitrary: st)
  case Nil
  then show ?case by simp
next
  case (Cons g gs)
  obtain item lv where st: "st = (item, lv)" by (cases st)
  from Cons.prems have g: "map_of (active_table p) g \<noteq> None" and k: "knows p gs"
    by (simp_all add: knows_def)
  have "least_valued_step p g st = Inr (least_valued_pure p g st)"
    by (simp add: st least_valued_step_def least_valued_pure_def get_valuation_knows [OF g])
  then show ?case
    by (simp add: Cons.IH [OF k])
qed

lemma envy_pair_step:
  assumes "knows p_i (get_assignment a (name p_j))" and "M (name p_i) = Some row"
    and "I (name p_i) = Some x"
  shows "envy_pair a p_i u p_j (M, T, I) =
           Inr (M(name p_i \<mapsto> row(name p_j \<mapsto>
                    (if name p_i = name p_j then 0
                     else max 0 (bundle_value p_i (get_assignment a (name p_j)) - u)))),
                T + (if name p_i = name p_j then 0
                     else max 0 (bundle_value p_i (get_assignment a (name p_j)) - u)),
                I(name p_i \<mapsto> x + (if name p_i = name p_j then 0
                     else max 0 (bundle_value p_i (get_assignment a (name p_j)) - u))))"
  using assms
  by (cases "name p_i = name p_j")
     (auto simp: envy_pair_def matrix_set_def totals_add_def sum_valuations_knows Let_def
      map_upd_triv)

lemma efx_envy_pair_step:
  assumes "knows p_i (get_assignment a (name p_j))" and "M (name p_i) = Some row"
    and "I (name p_i) = Some x"
  shows "efx_envy_pair a p_i u p_j (M, T, I) =
           Inr (M(name p_i \<mapsto> row(name p_j \<mapsto>
                    (if name p_i = name p_j then 0
                     else if get_assignment a (name p_j) = [] then 0
                     else max 0 (bundle_value p_i
                        (filter (\<lambda>g. Some g \<noteq> least_valued_item p_i (get_assignment a (name p_j)))
                           (get_assignment a (name p_j))) - u)))),
                T + (if name p_i = name p_j then 0
                     else if get_assignment a (name p_j) = [] then 0
                     else max 0 (bundle_value p_i
                        (filter (\<lambda>g. Some g \<noteq> least_valued_item p_i (get_assignment a (name p_j)))
                           (get_assignment a (name p_j))) - u)),
                I(name p_i \<mapsto> x + (if name p_i = name p_j then 0
                     else if get_assignment a (name p_j) = [] then 0
                     else max 0 (bundle_value p_i
                        (filter (\<lambda>g. Some g \<noteq> least_valued_item p_i (get_assignment a (name p_j)))
                           (get_assignment a (name p_j))) - u))))"
proof -
  obtain item lv where f: "fold (least_valued_pure p_i) (get_assignment a (name p_j)) (None, None) = (item, lv)"
    by (cases "fold (least_valued_pure p_i) (get_assignment a (name p_j)) (None, None)")
  then have l: "least_valued_item p_i (get_assignment a (name p_j)) = item"
    by (simp add: least_valued_item_def)
  show ?thesis
    using assms
    by (cases "name p_i = name p_j")
       (auto simp: efx_envy_pair_def matrix_set_def totals_add_def sum_valuations_knows Let_def
      map_upd_triv least_loop knows_filter f l)
qed

lemma matrix_body:
  assumes f: "\<And>p_j M T I row x. p_j \<in> set players \<Longrightarrow> M (name p_i) = Some row
               \<Longrightarrow> I (name p_i) = Some x \<Longrightarrow>
             f p_j (M, T, I) = Inr (M(name p_i \<mapsto> row(name p_j \<mapsto> e p_j)), T + e p_j,
                                    I(name p_i \<mapsto> x + e p_j))"
  shows "for_each players f (M(name p_i \<mapsto> Map.empty), T, I(name p_i \<mapsto> 0)) =
           Inr (M(name p_i \<mapsto> (\<lambda>m. case last_named m players of None \<Rightarrow> None
                                   | Some p_j \<Rightarrow> Some (e p_j))),
                T + sum_list (map e players),
                I(name p_i \<mapsto> sum_list (map e players)))"
proof -
  have "for_each players f (M(name p_i \<mapsto> Map.empty), T, I(name p_i \<mapsto> 0)) =
           Inr ((M(name p_i \<mapsto> Map.empty))(name p_i \<mapsto>
                   (\<lambda>n. case last_named n players of None \<Rightarrow> Map.empty n | Some p_j \<Rightarrow> Some (e p_j))),
                T + sum_list (map e players),
                (I(name p_i \<mapsto> 0))(name p_i \<mapsto> 0 + sum_list (map e players)))"
    by (rule row_loop) (simp_all add: f)
  then show ?thesis by simp
qed

lemma calculate_envy_matrix_eq:
  assumes c: "covers players a"
  shows "calculate_envy_matrix players a = Inr (matrix_of (envy_value a) players)"
proof -
  have body: "(case (M, T, I) of (envy_matrix, total_envy, individual_envy_totals) \<Rightarrow>
          bind_res (sum_valuations p_i (get_assignment a (name p_i)))
            (\<lambda>player_i_utility.
               for_each players (envy_pair a p_i player_i_utility)
                 (envy_matrix(name p_i \<mapsto> Map.empty), total_envy,
                  individual_envy_totals(name p_i \<mapsto> 0))))
        = Inr (M(name p_i \<mapsto> (\<lambda>m. case last_named m players of None \<Rightarrow> None
                                   | Some p_j \<Rightarrow> Some (envy_value a p_i p_j))),
               T + sum_list (map (envy_value a p_i) players),
               I(name p_i \<mapsto> sum_list (map (envy_value a p_i) players)))"
    if p: "p_i \<in> set players" for p_i M T I
  proof -
    have k: "knows p_i (get_assignment a (name q))" if "q \<in> set players" for q
      using covers_knows [OF c p that] .
    have "for_each players (envy_pair a p_i (bundle_value p_i (get_assignment a (name p_i))))
            (M(name p_i \<mapsto> Map.empty), T, I(name p_i \<mapsto> 0))
          = Inr (M(name p_i \<mapsto> (\<lambda>m. case last_named m players of None \<Rightarrow> None
                                   | Some p_j \<Rightarrow> Some (envy_value a p_i p_j))),
               T + sum_list (map (envy_value a p_i) players),
               I(name p_i \<mapsto> sum_list (map (envy_value a p_i) players)))"
      by (rule matrix_body) (simp add: envy_pair_step k envy_value_def)
    then show ?thesis
      by (simp add: sum_valuations_knows k p)
  qed
  have "for_each players
       (\<lambda>player_i (envy_matrix, total_envy, individual_envy_totals).
          bind_res (sum_valuations player_i (get_assignment a (name player_i)))
            (\<lambda>player_i_utility.
               for_each players (envy_pair a player_i player_i_utility)
                 (envy_matrix(name player_i \<mapsto> Map.empty), total_envy,
                  individual_envy_totals(name player_i \<mapsto> 0))))
       (Map.empty, 0, Map.empty)
     = Inr ((\<lambda>n. case last_named n players of None \<Rightarrow> Map.empty n
                | Some p_i \<Rightarrow> Some (\<lambda>m. case last_named m players of None \<Rightarrow> None
                                   | Some p_j \<Rightarrow> Some (envy_value a p_i p_j))),
            0 + sum_list (map (\<lambda>p_i. sum_list (map (envy_value a p_i) players)) players),
            (\<lambda>n. case last_named n players of None \<Rightarrow> Map.empty n
                | Some p_i \<Rightarrow> Some (sum_list (map (envy_value a p_i) players))))"
    by (rule matrix_loop) (rule body)
  then show ?thesis
    unfolding calculate_envy_matrix_def matrix_of_def by simp
qed

lemma calculate_efx_envy_matrix_eq:
  assumes c: "covers players a"
  shows "calculate_efx_envy_matrix players a = Inr (matrix_of (efx_envy_value a) players)"
proof -
  have body: "(case (M, T, I) of (envy_matrix, total_envy, individual_envy_totals) \<Rightarrow>
          bind_res (sum_valuations p_i (get_assignment a (name p_i)))
            (\<lambda>player_i_utility.
               for_each players (efx_envy_pair a p_i player_i_utility)
                 (envy_matrix(name p_i \<mapsto> Map.empty), total_envy,
                  individual_envy_totals(name p_i \<mapsto> 0))))
        = Inr (M(name p_i \<mapsto> (\<lambda>m. case last_named m players of None \<Rightarrow> None
                                   | Some p_j \<Rightarrow> Some (efx_envy_value a p_i p_j))),
               T + sum_list (map (efx_envy_value a p_i) players),
               I(name p_i \<mapsto> sum_list (map (efx_envy_value a p_i) players)))"
    if p: "p_i \<in> set players" for p_i M T I
  proof -
    have k: "knows p_i (get_assignment a (name q))" if "q \<in> set players" for q
      using covers_knows [OF c p that] .
    have "for_each players (efx_envy_pair a p_i (bundle_value p_i (get_assignment a (name p_i))))
            (M(name p_i \<mapsto> Map.empty), T, I(name p_i \<mapsto> 0))
          = Inr (M(name p_i \<mapsto> (\<lambda>m. case last_named m players of None \<Rightarrow> None
                                   | Some p_j \<Rightarrow> Some (efx_envy_value a p_i p_j))),
               T + sum_list (map (efx_envy_value a p_i) players),
               I(name p_i \<mapsto> sum_list (map (efx_envy_value a p_i) players)))"
      by (rule matrix_body) (simp add: efx_envy_pair_step k efx_envy_value_def)
    then show ?thesis
      by (simp add: sum_valuations_knows k p)
  qed
  have "for_each players
       (\<lambda>player_i (envy_matrix, total_envy, individual_envy_totals).
          bind_res (sum_valuations player_i (get_assignment a (name player_i)))
            (\<lambda>player_i_utility.
               for_each players (efx_envy_pair a player_i player_i_utility)
                 (envy_matrix(name player_i \<mapsto> Map.empty), total_envy,
                  individual_envy_totals(name player_i \<mapsto> 0))))
       (Map.empty, 0, Map.empty)
     = Inr ((\<lambda>n. case last_named n players of None \<Rightarrow> Map.empty n
                | Some p_i \<Rightarrow> Some (\<lambda>m. case last_named m players of None \<Rightarrow> None
                                   | Some p_j \<Rightarrow> Some (efx_envy_value a p_i p_j))),
            0 + sum_list (map (\<lambda>p_i. sum_list (map (efx_envy_value a p_i) players)) players),
            (\<lambda>n. case last_named n players of None \<Rightarrow> Map.empty n
                | Some p_i \<Rightarrow> Some (sum_list (map (efx_envy_value a p_i) players))))"
    by (rule matrix_loop) (rule body)
  then show ?thesis
    unfolding calculate_efx_envy_matrix_def matrix_of_def by simp
qed

lemma entry_matrix_of:
  assumes "distinct (map name players)" "p_i \<in> set players" "p_j \<in> set players"
  shows "entry (fst (matrix_of e players)) (name p_i) (name p_j) = Some (e p_i p_j)"
  using assms by (simp add: entry_def matrix_of_def last_named_distinct)

lemma least_fold_from_some:
  "\<exists>l'. fold (least_valued_pure p) gs (Some l, Some (val p l)) = (Some l', Some (val p l'))
        \<and> l' \<in> insert l (set gs) \<and> val p l' \<le> val p l \<and> (\<forall>g \<in> set gs. val p l' \<le> val p g)"
proof (induction gs arbitrary: l)
  case Nil
  then show ?case by simp
next
  case (Cons g gs)
  show ?case
  proof (cases "val p g < val p l")
    case True
    then have s: "least_valued_pure p g (Some l, Some (val p l)) = (Some g, Some (val p g))"
      by (simp add: least_valued_pure_def)
    from Cons.IH [of g] obtain l' where
      "fold (least_valued_pure p) gs (Some g, Some (val p g)) = (Some l', Some (val p l'))"
      "l' \<in> insert g (set gs)" "val p l' \<le> val p g" "\<forall>g \<in> set gs. val p l' \<le> val p g"
      by blast
    with True s show ?thesis by (intro exI [of _ l']) auto
  next
    case False
    then have s: "least_valued_pure p g (Some l, Some (val p l)) = (Some l, Some (val p l))"
      by (simp add: least_valued_pure_def)
    from Cons.IH [of l] obtain l' where
      "fold (least_valued_pure p) gs (Some l, Some (val p l)) = (Some l', Some (val p l'))"
      "l' \<in> insert l (set gs)" "val p l' \<le> val p l" "\<forall>g \<in> set gs. val p l' \<le> val p g"
      by blast
    with False s show ?thesis by (intro exI [of _ l']) auto
  qed
qed

lemma least_valued_item_props:
  assumes "gs \<noteq> []"
  shows "\<exists>l. least_valued_item p gs = Some l \<and> l \<in> set gs \<and> (\<forall>g \<in> set gs. val p l \<le> val p g)"
proof -
  from assms obtain g gs' where gs: "gs = g # gs'" by (cases gs) auto
  have s: "least_valued_pure p g (None, None) = (Some g, Some (val p g))"
    by (simp add: least_valued_pure_def)
  from least_fold_from_some [of p gs' g] obtain l' where
    "fold (least_valued_pure p) gs' (Some g, Some (val p g)) = (Some l', Some (val p l'))"
    "l' \<in> insert g (set gs')" "val p l' \<le> val p g" "\<forall>g \<in> set gs'. val p l' \<le> val p g"
    by blast
  then show ?thesis
    unfolding gs least_valued_item_def by (intro exI [of _ l']) (auto simp: s)
qed

lemma sum_list_filter_le:
  "(\<And>g. g \<in> set gs \<Longrightarrow> 0 \<le> (f g :: real)) \<Longrightarrow>
   sum_list (map f (filter P gs)) \<le> sum_list (map f gs)"
  by (induction gs) (auto intro: add_increasing)

lemma bundle_value_nonneg:
  "(\<And>g. g \<in> set gs \<Longrightarrow> 0 \<le> val p g) \<Longrightarrow> 0 \<le> bundle_value p gs"
  unfolding bundle_value_def by (induction gs) auto

lemma efx_envy_value_le:
  assumes "\<And>g. g \<in> set (get_assignment a (name p_j)) \<Longrightarrow> 0 \<le> val p_i g"
  shows "efx_envy_value a p_i p_j \<le> envy_value a p_i p_j"
proof -
  have "bundle_value p_i (filter P (get_assignment a (name p_j)))
        \<le> bundle_value p_i (get_assignment a (name p_j))" for P
    unfolding bundle_value_def by (rule sum_list_filter_le) (rule assms)
  then show ?thesis
    unfolding efx_envy_value_def envy_value_def
    by (auto simp: max_def intro: order_trans)
qed

lemma efx_envy_value_short:
  assumes "length (get_assignment a (name p_j)) \<le> 1"
    and "0 \<le> bundle_value p_i (get_assignment a (name p_i))"
  shows "efx_envy_value a p_i p_j = 0"
proof (cases "get_assignment a (name p_j)")
  case Nil
  then show ?thesis by (simp add: efx_envy_value_def)
next
  case (Cons g gs)
  with assms(1) have gj: "get_assignment a (name p_j) = [g]" by simp
  have "least_valued_item p_i [g] = Some g"
    by (simp add: least_valued_item_def least_valued_pure_def)
  then show ?thesis
    using assms(2) by (simp add: efx_envy_value_def gj bundle_value_def)
qed

lemma envy_value_empty:
  assumes "get_assignment a (name p_j) = []"
    and "0 \<le> bundle_value p_i (get_assignment a (name p_i))"
  shows "envy_value a p_i p_j = 0"
  using assms by (simp add: envy_value_def bundle_value_def)

lemma efx_envy_value_formula:
  assumes "name p_i \<noteq> name p_j" and "get_assignment a (name p_j) \<noteq> []"
  shows "\<exists>l \<in> set (get_assignment a (name p_j)).
           (\<forall>g \<in> set (get_assignment a (name p_j)). val p_i l \<le> val p_i g)
           \<and> efx_envy_value a p_i p_j =
               max 0 (bundle_value p_i (filter (\<lambda>g. g \<noteq> l) (get_assignment a (name p_j)))
                      - bundle_value p_i (get_assignment a (name p_i)))"
proof -
  from least_valued_item_props [OF assms(2), of p_i] obtain l where
    l: "least_valued_item p_i (get_assignment a (name p_j)) = Some l"
       "l \<in> set (get_assignment a (name p_j))"
       "\<forall>g \<in> set (get_assignment a (name p_j)). val p_i l \<le> val p_i g"
    by blast
  then show ?thesis
    using assms by (intro bexI [of _ l]) (simp_all add: efx_envy_value_def)
qed

lemma nonneg_onD:
  "nonneg_on players a \<Longrightarrow> p \<in> set players \<Longrightarrow> q \<in> set players
   \<Longrightarrow> g \<in> set (get_assignment a (name q)) \<Longrightarrow> 0 \<le> val p g"
  by (simp add: nonneg_on_def list_all_iff)

lemma test_players_facts:
  "distinct (map name create_test_players)"
  "covers create_test_players test_case_2"
  "nonneg_on create_test_players test_case_2"
  "length create_test_players = 4"
  by (simp_all add: covers_def knows_def nonneg_on_def val_def eval_defs test_case_2_def)

text \<open>
  C4 as stated fails in its last part. In the second test allocation P2 holds the
  single good B and P4 holds nothing: P4 envies P2 by its value of B, while the EFX-envy
  is 0, because removing the only good leaves an empty bundle.
\<close>

theorem efx_envy_single_good_counterexample:
  "length (get_assignment test_case_2 ''P2'') \<le> 1
   \<and> matrix_entry (calculate_envy_matrix create_test_players test_case_2) ''P4'' ''P2'' = Some 1
   \<and> matrix_entry (calculate_efx_envy_matrix create_test_players test_case_2) ''P4'' ''P2'' = Some 0"
proof -
  let ?p4 = "create_test_players ! 3" and ?p2 = "create_test_players ! 1"
  have n: "name ?p4 = ''P4''" "name ?p2 = ''P2''"
    by (simp_all add: create_test_players_def Player_def)
  have m: "?p4 \<in> set create_test_players" "?p2 \<in> set create_test_players"
    by (simp_all add: test_players_facts)
  have e: "entry (fst (matrix_of (envy_value test_case_2) create_test_players)) ''P4'' ''P2''
           = Some (envy_value test_case_2 ?p4 ?p2)"
    using entry_matrix_of [OF test_players_facts(1) m] n by simp
  have x: "entry (fst (matrix_of (efx_envy_value test_case_2) create_test_players)) ''P4'' ''P2''
           = Some (efx_envy_value test_case_2 ?p4 ?p2)"
    using entry_matrix_of [OF test_players_facts(1) m] n by simp
  have v1: "envy_value test_case_2 ?p4 ?p2 = 1"
    by (simp add: envy_value_def bundle_value_def val_def eval_defs test_case_2_def)
  have v2: "efx_envy_value test_case_2 ?p4 ?p2 = 0"
    by (simp add: efx_envy_value_def least_valued_item_def least_valued_pure_def
        bundle_value_def val_def eval_defs test_case_2_def)
  have l: "length (get_assignment test_case_2 ''P2'') \<le> 1"
    by (simp add: get_assignment_def test_case_2_def)
  show ?thesis
    unfolding matrix_entry_def calculate_envy_matrix_eq [OF test_players_facts(2)]
      calculate_efx_envy_matrix_eq [OF test_players_facts(2)]
    using e x v1 v2 l by (simp add: split_beta)
qed

text \<open>
  C4, amended. For players with distinct names whose lookups all succeed and whose
  valuations are not negative, both matrix functions return normally and, for all
  positions \<open>i\<close> and \<open>j\<close>: the envy entry is \<open>max(0, v_i(X_j) - v_i(X_i))\<close> off the diagonal;
  the EFX-envy entry is the same with every copy of an item of \<open>X_j\<close> that \<open>i\<close> values least
  removed from \<open>X_j\<close>; the EFX-envy entry is at most the envy entry; both diagonals are 0;
  the two entries are equal (both 0) when \<open>X_j\<close> is empty; and the EFX-envy entry is 0
  when \<open>X_j\<close> has at most one good.
\<close>

theorem efx_envy_le_envy:
  "distinct (map name players) \<and> covers players a \<and> nonneg_on players a \<longrightarrow>
   (\<exists>em t ind xm xt xind.
      calculate_envy_matrix players a = Inr (em, t, ind)
      \<and> calculate_efx_envy_matrix players a = Inr (xm, xt, xind)
      \<and> (\<forall>i < length players. \<forall>j < length players.
            (\<exists>e x. entry em (name (players ! i)) (name (players ! j)) = Some e
               \<and> entry xm (name (players ! i)) (name (players ! j)) = Some x
               \<and> e = (if i = j then 0
                        else max 0 (bundle_value (players ! i) (get_assignment a (name (players ! j)))
                                    - bundle_value (players ! i) (get_assignment a (name (players ! i)))))
               \<and> (i \<noteq> j \<and> get_assignment a (name (players ! j)) \<noteq> [] \<longrightarrow>
                    (\<exists>l \<in> set (get_assignment a (name (players ! j))).
                       (\<forall>g \<in> set (get_assignment a (name (players ! j))).
                          val (players ! i) l \<le> val (players ! i) g)
                       \<and> x = max 0 (bundle_value (players ! i)
                                       (filter (\<lambda>g. g \<noteq> l) (get_assignment a (name (players ! j))))
                                     - bundle_value (players ! i) (get_assignment a (name (players ! i))))))
               \<and> x \<le> e
               \<and> (i = j \<longrightarrow> x = 0 \<and> e = 0)
               \<and> (get_assignment a (name (players ! j)) = [] \<longrightarrow> x = e)
               \<and> (length (get_assignment a (name (players ! j))) \<le> 1 \<longrightarrow> x = 0))))"
proof (intro impI, elim conjE)
  assume d: "distinct (map name players)" and c: "covers players a" and nn: "nonneg_on players a"
  let ?em = "fst (matrix_of (envy_value a) players)"
  let ?xm = "fst (matrix_of (efx_envy_value a) players)"
  have props: "\<exists>e x. entry ?em (name (players ! i)) (name (players ! j)) = Some e
               \<and> entry ?xm (name (players ! i)) (name (players ! j)) = Some x
               \<and> e = (if i = j then 0
                        else max 0 (bundle_value (players ! i) (get_assignment a (name (players ! j)))
                                    - bundle_value (players ! i) (get_assignment a (name (players ! i)))))
               \<and> (i \<noteq> j \<and> get_assignment a (name (players ! j)) \<noteq> [] \<longrightarrow>
                    (\<exists>l \<in> set (get_assignment a (name (players ! j))).
                       (\<forall>g \<in> set (get_assignment a (name (players ! j))).
                          val (players ! i) l \<le> val (players ! i) g)
                       \<and> x = max 0 (bundle_value (players ! i)
                                       (filter (\<lambda>g. g \<noteq> l) (get_assignment a (name (players ! j))))
                                     - bundle_value (players ! i) (get_assignment a (name (players ! i))))))
               \<and> x \<le> e
               \<and> (i = j \<longrightarrow> x = 0 \<and> e = 0)
               \<and> (get_assignment a (name (players ! j)) = [] \<longrightarrow> x = e)
               \<and> (length (get_assignment a (name (players ! j))) \<le> 1 \<longrightarrow> x = 0)"
    if i: "i < length players" and j: "j < length players" for i j
  proof -
    let ?p = "players ! i" and ?q = "players ! j"
    have pi: "?p \<in> set players" and pj: "?q \<in> set players"
      using i j by simp_all
    have names: "name ?p = name ?q \<longleftrightarrow> i = j"
      using d i j nth_eq_iff_index_eq [of "map name players" i j] by simp
    have u: "0 \<le> bundle_value ?p (get_assignment a (name ?p))"
      by (rule bundle_value_nonneg) (rule nonneg_onD [OF nn pi pi])
    have e1: "entry ?em (name ?p) (name ?q) = Some (envy_value a ?p ?q)"
      by (rule entry_matrix_of [OF d pi pj])
    have e2: "entry ?xm (name ?p) (name ?q) = Some (efx_envy_value a ?p ?q)"
      by (rule entry_matrix_of [OF d pi pj])
    have f1: "envy_value a ?p ?q = (if i = j then 0
                        else max 0 (bundle_value ?p (get_assignment a (name ?q))
                                    - bundle_value ?p (get_assignment a (name ?p))))"
      using names by (simp add: envy_value_def)
    have f2: "\<exists>l \<in> set (get_assignment a (name ?q)).
                 (\<forall>g \<in> set (get_assignment a (name ?q)). val ?p l \<le> val ?p g)
                 \<and> efx_envy_value a ?p ?q =
                     max 0 (bundle_value ?p (filter (\<lambda>g. g \<noteq> l) (get_assignment a (name ?q)))
                            - bundle_value ?p (get_assignment a (name ?p)))"
      if "i \<noteq> j" "get_assignment a (name ?q) \<noteq> []"
      using that names by (intro efx_envy_value_formula) simp_all
    have f3: "efx_envy_value a ?p ?q \<le> envy_value a ?p ?q"
      by (rule efx_envy_value_le) (rule nonneg_onD [OF nn pi pj])
    have f4: "efx_envy_value a ?p ?q = 0 \<and> envy_value a ?p ?q = 0" if "i = j"
      using that by (simp add: efx_envy_value_def envy_value_def)
    have f5: "efx_envy_value a ?p ?q = envy_value a ?p ?q" if "get_assignment a (name ?q) = []"
      using that envy_value_empty [OF that u] efx_envy_value_short [of a ?q ?p, OF _ u] by simp
    have f6: "efx_envy_value a ?p ?q = 0" if "length (get_assignment a (name ?q)) \<le> 1"
      using that u by (rule efx_envy_value_short)
    show ?thesis
      using e1 e2 f1 f2 f3 f4 f5 f6 by blast
  qed
  have m1: "calculate_envy_matrix players a
            = Inr (?em, fst (snd (matrix_of (envy_value a) players)),
                   snd (snd (matrix_of (envy_value a) players)))"
    by (simp add: calculate_envy_matrix_eq [OF c])
  have m2: "calculate_efx_envy_matrix players a
            = Inr (?xm, fst (snd (matrix_of (efx_envy_value a) players)),
                   snd (snd (matrix_of (efx_envy_value a) players)))"
    by (simp add: calculate_efx_envy_matrix_eq [OF c])
  from m1 m2 props show "\<exists>em t ind xm xt xind.
      calculate_envy_matrix players a = Inr (em, t, ind)
      \<and> calculate_efx_envy_matrix players a = Inr (xm, xt, xind)
      \<and> (\<forall>i < length players. \<forall>j < length players.
            (\<exists>e x. entry em (name (players ! i)) (name (players ! j)) = Some e
               \<and> entry xm (name (players ! i)) (name (players ! j)) = Some x
               \<and> e = (if i = j then 0
                        else max 0 (bundle_value (players ! i) (get_assignment a (name (players ! j)))
                                    - bundle_value (players ! i) (get_assignment a (name (players ! i)))))
               \<and> (i \<noteq> j \<and> get_assignment a (name (players ! j)) \<noteq> [] \<longrightarrow>
                    (\<exists>l \<in> set (get_assignment a (name (players ! j))).
                       (\<forall>g \<in> set (get_assignment a (name (players ! j))).
                          val (players ! i) l \<le> val (players ! i) g)
                       \<and> x = max 0 (bundle_value (players ! i)
                                       (filter (\<lambda>g. g \<noteq> l) (get_assignment a (name (players ! j))))
                                     - bundle_value (players ! i) (get_assignment a (name (players ! i))))))
               \<and> x \<le> e
               \<and> (i = j \<longrightarrow> x = 0 \<and> e = 0)
               \<and> (get_assignment a (name (players ! j)) = [] \<longrightarrow> x = e)
               \<and> (length (get_assignment a (name (players ! j))) \<le> 1 \<longrightarrow> x = 0)))"
    by blast
qed


theorem efx_envy_le_envy_witness:
  "distinct (map name create_test_players)
   \<and> covers create_test_players test_case_2
   \<and> nonneg_on create_test_players test_case_2
   \<and> (\<exists>e x. matrix_entry (calculate_envy_matrix create_test_players test_case_2) ''P4'' ''P1'' = Some e
          \<and> matrix_entry (calculate_efx_envy_matrix create_test_players test_case_2) ''P4'' ''P1'' = Some x
          \<and> x \<le> e)"
proof -
  have n: "name (create_test_players ! 3) = ''P4''" "name (create_test_players ! 0) = ''P1''"
    by (simp_all add: create_test_players_def Player_def)
  have three: "(3::nat) < length create_test_players" and zero: "(0::nat) < length create_test_players"
    by (simp_all add: test_players_facts)
  note h = efx_envy_le_envy [of create_test_players test_case_2, THEN mp,
      OF conjI [OF test_players_facts(1) conjI [OF test_players_facts(2) test_players_facts(3)]]]
  from h obtain em t ind xm xt xind where
    m: "calculate_envy_matrix create_test_players test_case_2 = Inr (em, t, ind)"
       "calculate_efx_envy_matrix create_test_players test_case_2 = Inr (xm, xt, xind)"
    and a: "\<forall>i < length create_test_players. \<forall>j < length create_test_players.
            (\<exists>e x. entry em (name (create_test_players ! i)) (name (create_test_players ! j)) = Some e
               \<and> entry xm (name (create_test_players ! i)) (name (create_test_players ! j)) = Some x
               \<and> x \<le> e)"
    by (elim exE conjE) (rule that, assumption, assumption, fast)
  from a three zero
  have "\<exists>e x. entry em (name (create_test_players ! 3)) (name (create_test_players ! 0)) = Some e
               \<and> entry xm (name (create_test_players ! 3)) (name (create_test_players ! 0)) = Some x
               \<and> x \<le> e"
    by blast
  then show ?thesis
    using test_players_facts(1-3) m n by (simp add: matrix_entry_def)
qed


section \<open>Champion graph: assignment to a source\<close>
























section \<open>The redistribution phase\<close>

lemma bind_res_eq_Inr:
  "bind_res m f = Inr y \<longleftrightarrow> (\<exists>x. m = Inr x \<and> f x = Inr y)"
  by (cases m) auto

lemma phase2_body_cases:
  assumes "phase2_body players st = Inr out"
  obtains
    (skip) envier envied rest where
      "envy_relationships st = (envier, envied) # rest"
      "cut_and_choose players (current_allocation st) envier envied = Inr None"
      "out = Continue \<lparr> envy_relationships = rest, current_allocation = current_allocation st,
               seen_states = create_phase2_state_hash (envy_relationships st) (current_allocation st)
                             # seen_states st,
               step = step st + 1 \<rparr>"
  | (accept) envier envied rest test cur new rels where
      "envy_relationships st = (envier, envied) # rest"
      "cut_and_choose players (current_allocation st) envier envied = Inr (Some test)"
      "efx_envy_total players (current_allocation st) = Inr cur"
      "efx_envy_total players test = Inr new"
      "new < cur"
      "get_envy_relationships players test = Inr rels"
      "out = (if new = 0 then Return test (step st + 1)
              else Continue \<lparr> envy_relationships = rels, current_allocation = test,
                             seen_states = [], step = step st + 1 \<rparr>)"
  | (reject) envier envied rest test cur new where
      "envy_relationships st = (envier, envied) # rest"
      "cut_and_choose players (current_allocation st) envier envied = Inr (Some test)"
      "efx_envy_total players (current_allocation st) = Inr cur"
      "efx_envy_total players test = Inr new"
      "\<not> new < cur"
      "out = (if cur = 0 then Return (current_allocation st) (step st + 1)
              else Continue \<lparr> envy_relationships = rest, current_allocation = current_allocation st,
               seen_states = create_phase2_state_hash (envy_relationships st) (current_allocation st)
                             # seen_states st,
               step = step st + 1 \<rparr>)"
proof -
  let ?fp = "create_phase2_state_hash (envy_relationships st) (current_allocation st)"
  from assms have nc: "?fp \<notin> set (seen_states st)"
    by (auto simp: phase2_body_def Let_def split: if_splits)
  from assms nc obtain envier envied rest where q: "envy_relationships st = (envier, envied) # rest"
    by (cases "envy_relationships st") (auto simp: phase2_body_def Let_def)
  from assms nc q obtain cur where cur: "efx_envy_total players (current_allocation st) = Inr cur"
    by (cases "efx_envy_total players (current_allocation st)") (auto simp: phase2_body_def Let_def)
  from assms nc q cur obtain reg where reg: "envy_total players (current_allocation st) = Inr reg"
    by (cases "envy_total players (current_allocation st)") (auto simp: phase2_body_def Let_def)
  from assms nc q cur reg obtain cand where
    cand: "cut_and_choose players (current_allocation st) envier envied = Inr cand"
    by (cases "cut_and_choose players (current_allocation st) envier envied")
       (auto simp: phase2_body_def Let_def)
  show thesis
  proof (cases cand)
    case None
    with assms nc q cur reg cand show thesis
      by (intro skip [of envier envied rest]) (auto simp: phase2_body_def Let_def)
  next
    case (Some test)
    from assms nc q cur reg cand Some obtain new where
      new: "efx_envy_total players test = Inr new"
      by (cases "efx_envy_total players test") (auto simp: phase2_body_def Let_def)
    from assms nc q cur reg cand Some new obtain nreg where
      nreg: "envy_total players test = Inr nreg"
      by (cases "envy_total players test") (auto simp: phase2_body_def Let_def)
    show thesis
    proof (cases "new < cur")
      case True
      from assms nc q cur reg cand Some new nreg True obtain rels where
        rels: "get_envy_relationships players test = Inr rels"
        by (cases "get_envy_relationships players test") (auto simp: phase2_body_def Let_def)
      from assms nc q cur reg cand Some new nreg True rels show thesis
        by (intro accept [of envier envied rest test cur new rels])
           (auto simp: phase2_body_def Let_def split: if_splits)
    next
      case False
      from assms nc q cur reg cand Some new nreg False show thesis
        by (intro reject [of envier envied rest test cur new])
           (auto simp: phase2_body_def Let_def split: if_splits)
    qed
  qed
qed

lemma for_each_invariant:
  assumes "\<And>x s s'. x \<in> set xs \<Longrightarrow> P s \<Longrightarrow> f x s = Inr s' \<Longrightarrow> P s'"
    and "P s" and "for_each xs f s = Inr s'"
  shows "P s'"
  using assms
proof (induction xs arbitrary: s)
  case Nil
  then show ?case by simp
next
  case (Cons x xs)
  from Cons.prems(3) obtain s1 where s1: "f x s = Inr s1" "for_each xs f s1 = Inr s'"
    by (auto simp: bind_res_eq_Inr)
  have "P s1" using Cons.prems(1) [of x s s1] Cons.prems(2) s1(1) by simp
  show ?case
  proof (rule Cons.IH [of s1])
    show "P s'" if "y \<in> set xs" "P s" "f y s = Inr s'" for y s s'
      using Cons.prems(1) [of y s s'] that by simp
  qed (fact \<open>P s1\<close>, fact s1(2))
qed

lemma get_envy_relationships_good:
  assumes "get_envy_relationships players a = Inr rels"
  shows "good_queue rels"
proof -
  from assms obtain m t ind where c: "calculate_efx_envy_matrix players a = Inr (m, t, ind)"
    by (cases "calculate_efx_envy_matrix players a") (auto simp: get_envy_relationships_def)
  with assms have
    loop: "for_each players
            (\<lambda>player_i rels.
               for_each players
                 (\<lambda>player_j rels.
                    if name player_i \<noteq> name player_j
                    then bind_res (dict_get m (name player_i)) (\<lambda>row.
                         bind_res (dict_get row (name player_j)) (\<lambda>efx_envy.
                           if efx_envy > 0
                           then Inr (rels @ [(name player_i, name player_j)])
                           else Inr rels))
                    else Inr rels)
                 rels)
            [] = Inr rels"
    by (simp add: get_envy_relationships_def)
  have inner: "good_queue r'"
    if "good_queue r"
      and "for_each players
                 (\<lambda>player_j rels.
                    if name p_i \<noteq> name player_j
                    then bind_res (dict_get m (name p_i)) (\<lambda>row.
                         bind_res (dict_get row (name player_j)) (\<lambda>efx_envy.
                           if efx_envy > 0
                           then Inr (rels @ [(name p_i, name player_j)])
                           else Inr rels))
                    else Inr rels)
                 r = Inr r'" for p_i r r'
  proof (rule for_each_invariant [where P = good_queue, OF _ that])
    fix x s s'
    assume "good_queue s"
      and "(if name p_i \<noteq> name x
            then bind_res (dict_get m (name p_i)) (\<lambda>row.
                 bind_res (dict_get row (name x)) (\<lambda>efx_envy.
                   if efx_envy > 0 then Inr (s @ [(name p_i, name x)]) else Inr s))
            else Inr s) = Inr s'"
    then show "good_queue s'"
      by (auto simp: good_queue_def bind_res_eq_Inr split: if_splits)
  qed
  show ?thesis
  proof (rule for_each_invariant [where P = good_queue, OF _ _ loop])
    show "good_queue []" by (simp add: good_queue_def)
  next
    fix x s s'
    assume "good_queue s" and "for_each players
                 (\<lambda>player_j rels.
                    if name x \<noteq> name player_j
                    then bind_res (dict_get m (name x)) (\<lambda>row.
                         bind_res (dict_get row (name player_j)) (\<lambda>efx_envy.
                           if efx_envy > 0
                           then Inr (rels @ [(name x, name player_j)])
                           else Inr rels))
                    else Inr rels)
                 s = Inr s'"
    then show "good_queue s'" by (rule inner)
  qed
qed


lemma keyed_goods:
  "map_res (\<lambda>g. bind_res (get_valuation p g) (\<lambda>v. Inr (v, g))) goods = Inr keyed
   \<Longrightarrow> map snd keyed = goods"
proof (induction goods arbitrary: keyed)
  case Nil
  then show ?case by simp
next
  case (Cons g goods)
  from Cons.prems obtain v ks where
    "get_valuation p g = Inr v"
    "map_res (\<lambda>g. bind_res (get_valuation p g) (\<lambda>v. Inr (v, g))) goods = Inr ks"
    "keyed = (v, g) # ks"
    by (auto simp: bind_res_def split: sum.splits)
  with Cons.IH [of ks] show ?case by simp
qed

lemma sorted_by_valuation_desc_mset:
  assumes "sorted_by_valuation_desc p goods = Inr sg"
  shows "mset sg = mset goods"
proof -
  from assms obtain keyed where
    k: "map_res (\<lambda>g. bind_res (get_valuation p g) (\<lambda>v. Inr (v, g))) goods = Inr keyed"
    and sg: "sg = map snd (sort_key (\<lambda>(v, g). - v) keyed)"
    by (auto simp: sorted_by_valuation_desc_def bind_res_eq_Inr)
  have "mset sg = image_mset snd (mset (sort_key (\<lambda>(v, g). - v) keyed))"
    by (simp add: sg)
  also have "\<dots> = image_mset snd (mset keyed)" by simp
  also have "\<dots> = mset (map snd keyed)" by simp
  finally show ?thesis by (simp add: keyed_goods [OF k])
qed

lemma split_step_mset:
  assumes "split_step p n g (b1, b2, c) = Inr (x, y, z)"
  shows "mset x + mset y = mset b1 + mset b2 + {#g#}"
  using assms
  by (auto simp: split_step_def bind_res_eq_Inr split: if_splits)

lemma split_loop_mset:
  "for_each sg (split_step p n) (b1, b2, c) = Inr (x, y, z)
   \<Longrightarrow> mset x + mset y = mset b1 + mset b2 + mset sg"
proof (induction sg arbitrary: b1 b2 c)
  case Nil
  then show ?case by simp
next
  case (Cons g sg)
  from Cons.prems obtain s1 where
    s1: "split_step p n g (b1, b2, c) = Inr s1" "for_each sg (split_step p n) s1 = Inr (x, y, z)"
    by (auto simp: bind_res_eq_Inr)
  obtain b1' b2' c' where s: "s1 = (b1', b2', c')" by (cases s1)
  from split_step_mset [OF s1(1) [unfolded s]] Cons.IH [OF s1(2) [unfolded s]]
  show ?case by simp
qed

lemma ensure_nonempty_mset:
  assumes "ensure_nonempty (b1, b2) = (x, y)"
  shows "mset x + mset y = mset b1 + mset b2"
proof -
  have l: "add_mset (last xs) (mset (butlast xs)) = mset xs" if "xs \<noteq> []" for xs :: "good list"
    using that by (induction xs) auto
  from assms show ?thesis
    by (auto simp: ensure_nonempty_def l split: if_splits)
qed

lemma create_split_mset:
  assumes "create_efx_bundles_split_division p goods = Inr (Some (a, b))"
  shows "mset a + mset b = mset goods"
proof -
  from assms have "\<not> length goods < 2"
    by (auto simp: create_efx_bundles_split_division_def)
  with assms obtain sg st where
    sg: "sorted_by_valuation_desc p goods = Inr sg"
    and st: "for_each sg (split_step p (length sg)) ([], [], 1) = Inr st"
    and r: "(case st of (bundle1, bundle2, current_bundle) \<Rightarrow>
             case ensure_nonempty (bundle1, bundle2) of (b1, b2) \<Rightarrow>
               bind_res (sum_valuations p b1) (\<lambda>final_value1.
               bind_res (sum_valuations p b2) (\<lambda>final_value2.
               Inr (Some (b1, b2))))) = Inr (Some (a, b))"
    by (auto simp: create_efx_bundles_split_division_def bind_res_eq_Inr)
  obtain b1 b2 c where s: "st = (b1, b2, c)" by (cases st)
  obtain x y where e: "ensure_nonempty (b1, b2) = (x, y)" by (cases "ensure_nonempty (b1, b2)")
  from r have "x = a" "y = b"
    by (auto simp: s e bind_res_eq_Inr)
  with ensure_nonempty_mset [OF e] split_loop_mset [OF st [unfolded s]]
    sorted_by_valuation_desc_mset [OF sg]
  show ?thesis by simp
qed

lemma find_division_mset:
  assumes "find_efx_division_for_envier p goods = Inr (Some (a, b))"
  shows "mset a + mset b = mset goods"
proof -
  from assms obtain sp where
    sp: "create_efx_bundles_split_division p goods = Inr sp"
    and r: "(case sp of None \<Rightarrow> Inr None
             | Some (b1, b2) \<Rightarrow>
                 bind_res (is_division_efx_for_player p b1 b2)
                   (\<lambda>ok. if ok then Inr (Some (b1, b2)) else Inr None)) = Inr (Some (a, b))"
    by (auto simp: find_efx_division_for_envier_def bind_res_eq_Inr split: if_splits)
  from r have "sp = Some (a, b)"
    by (auto simp: bind_res_eq_Inr split: option.splits if_splits)
  with sp show ?thesis by (simp add: create_split_mset)
qed


lemma calculate_utilities_assignments:
  assumes "calculate_utilities players t = Inr t'"
  shows "assignments t' = assignments t"
proof (rule for_each_invariant [where P = "\<lambda>al. assignments al = assignments t",
      OF _ _ assms [unfolded calculate_utilities_def]])
  show "assignments t = assignments t" ..
next
  fix x s s'
  assume "assignments s = assignments t"
    and "bind_res (sum_valuations x (get_assignment s (name x)))
           (\<lambda>utility. Inr (set_utility s (name x) utility)) = Inr s'"
  then show "assignments s' = assignments t"
    by (auto simp: bind_res_eq_Inr set_utility_def)
qed

lemma get_assignment_cong:
  "assignments a = assignments b \<Longrightarrow> get_assignment a n = get_assignment b n"
  by (simp add: get_assignment_def)

lemma fold_assign:
  "get_assignment (fold (\<lambda>p t. set_assignment t (name p) (h (name p))) ps t0) n
   = (if n \<in> name ` set ps then h n else get_assignment t0 n)"
proof (induction ps arbitrary: t0)
  case Nil
  then show ?case by simp
next
  case (Cons p ps)
  have "get_assignment (set_assignment t0 (name p) (h (name p))) n
        = (if n = name p then h n else get_assignment t0 n)"
    by (simp add: get_assignment_def set_assignment_def)
  then show ?case
    by (auto simp: Cons.IH)
qed

lemma next_player_name:
  "next_player players n = Inr p \<Longrightarrow> p \<in> set players \<and> name p = n"
  by (auto simp: next_player_def find_Some_iff split: option.splits)

lemma cut_and_choose_Some:
  assumes "cut_and_choose players cur X Y = Inr (Some t)"
  obtains ge gd where
    "X \<in> name ` set players" "Y \<in> name ` set players"
    "\<And>n. n \<in> name ` set players \<Longrightarrow>
        get_assignment t n = (if n = X then ge else if n = Y then gd else get_assignment cur n)"
    "mset ge + mset gd = mset (get_assignment cur X) + mset (get_assignment cur Y)"
proof -
  let ?all = "get_assignment cur X @ get_assignment cur Y"
  from assms obtain px py where
    px: "next_player players X = Inr px" and py: "next_player players Y = Inr py"
    by (auto simp: cut_and_choose_def bind_res_eq_Inr)
  then have X: "X \<in> name ` set players" and Y: "Y \<in> name ` set players"
    by (auto dest: next_player_name)
  from assms px py have len: "\<not> length ?all < 2"
    by (auto simp: cut_and_choose_def Let_def)
  from assms px py len obtain d where
    d: "find_efx_division_for_envier px ?all = Inr d"
    by (cases "find_efx_division_for_envier px ?all")
       (auto simp: cut_and_choose_def Let_def)
  from assms px py len d obtain a b where ab: "d = Some (a, b)"
    by (cases d) (auto simp: cut_and_choose_def Let_def)
  from assms px py len d ab obtain va vb where
    va: "sum_valuations py a = Inr va" and vb: "sum_valuations py b = Inr vb"
    by (auto simp: cut_and_choose_def Let_def bind_res_eq_Inr)
  define gd where "gd = (if va \<ge> vb then a else b)"
  define ge where "ge = (if va \<ge> vb then b else a)"
  define h where "h n = (if n = X then ge else if n = Y then gd else get_assignment cur n)" for n
  have step: "(\<lambda>player t.
                  if name player = X then set_assignment t (name player) ge
                  else if name player = Y then set_assignment t (name player) gd
                  else set_assignment t (name player) (get_assignment cur (name player)))
              = (\<lambda>p t. set_assignment t (name p) (h (name p)))"
    by (intro ext) (simp add: h_def)
  have "calculate_utilities players
          (fold (\<lambda>player t.
                  if name player = X then set_assignment t (name player) ge
                  else if name player = Y then set_assignment t (name player) gd
                  else set_assignment t (name player) (get_assignment cur (name player)))
             players Allocation) = Inr t"
  proof (cases "va \<ge> vb")
    case True
    then have "ge = b" "gd = a" by (simp_all add: ge_def gd_def)
    with assms px py len d ab va vb True show ?thesis
      by (auto simp: cut_and_choose_def Let_def bind_res_eq_Inr)
  next
    case False
    then have "ge = a" "gd = b" by (simp_all add: ge_def gd_def)
    with assms px py len d ab va vb False show ?thesis
      by (auto simp: cut_and_choose_def Let_def bind_res_eq_Inr)
  qed
  then have cu: "calculate_utilities players
          (fold (\<lambda>p t. set_assignment t (name p) (h (name p))) players Allocation) = Inr t"
    by (simp only: step)
  have ga: "get_assignment t n = h n" if "n \<in> name ` set players" for n
    using get_assignment_cong [OF calculate_utilities_assignments [OF cu], of n]
      fold_assign [of h players Allocation n] that by simp
  have "mset a + mset b = mset ?all"
    using d ab by (simp add: find_division_mset)
  then have ms: "mset ge + mset gd = mset (get_assignment cur X) + mset (get_assignment cur Y)"
    by (simp add: ge_def gd_def add.commute)
  show thesis
    by (rule that [of ge gd]) (use X Y ga ms in \<open>simp_all add: h_def\<close>)
qed

lemma sum_list_two_changed:
  fixes f f' :: "'a \<Rightarrow> 'b multiset"
  assumes "distinct ns" "X \<in> set ns" "Y \<in> set ns" "X \<noteq> Y"
    and "\<And>n. n \<in> set ns \<Longrightarrow> n \<noteq> X \<Longrightarrow> n \<noteq> Y \<Longrightarrow> f' n = f n"
    and "f' X + f' Y = f X + f Y"
  shows "sum_list (map f' ns) = sum_list (map f ns)"
proof -
  have fin: "finite (set ns)" by simp
  have YX: "Y \<in> set ns - {X}" using assms(3,4) by simp
  have rest: "sum f' (set ns - {X} - {Y}) = sum f (set ns - {X} - {Y})"
    by (rule sum.cong) (use assms(5) in auto)
  have "sum_list (map f' ns) = sum f' (set ns)"
    using assms(1) by (simp add: sum_list_distinct_conv_sum_set)
  also have "\<dots> = f' X + sum f' (set ns - {X})"
    using assms(2) by (simp add: sum.remove)
  also have "\<dots> = f' X + (f' Y + sum f' (set ns - {X} - {Y}))"
    using YX by (simp add: sum.remove)
  also have "\<dots> = f X + (f Y + sum f (set ns - {X} - {Y}))"
    using assms(6) rest by (simp add: add.assoc [symmetric])
  also have "\<dots> = f X + sum f (set ns - {X})"
    using YX by (simp add: sum.remove)
  also have "\<dots> = sum f (set ns)"
    using assms(2) by (simp add: sum.remove)
  also have "\<dots> = sum_list (map f ns)"
    using assms(1) by (simp add: sum_list_distinct_conv_sum_set)
  finally show ?thesis .
qed

lemma cut_and_choose_held_goods:
  assumes "cut_and_choose players cur X Y = Inr (Some t)" and "X \<noteq> Y"
  shows "held_goods players t = held_goods players cur"
proof (rule cut_and_choose_Some [OF assms(1)])
  fix ge gd
  assume X: "X \<in> name ` set players" and Y: "Y \<in> name ` set players"
    and ga: "\<And>n. n \<in> name ` set players \<Longrightarrow>
        get_assignment t n = (if n = X then ge else if n = Y then gd else get_assignment cur n)"
    and ms: "mset ge + mset gd = mset (get_assignment cur X) + mset (get_assignment cur Y)"
  show ?thesis
    unfolding held_goods_def
  proof (rule sum_list_two_changed [of _ X Y])
    show "distinct (remdups (map name players))" by simp
    show "X \<in> set (remdups (map name players))" using X by simp
    show "Y \<in> set (remdups (map name players))" using Y by simp
    show "X \<noteq> Y" by fact
    show "mset (get_assignment t n) = mset (get_assignment cur n)"
      if "n \<in> set (remdups (map name players))" "n \<noteq> X" "n \<noteq> Y" for n
      using that ga [of n] by simp
    show "mset (get_assignment t X) + mset (get_assignment t Y)
          = mset (get_assignment cur X) + mset (get_assignment cur Y)"
      using ga [OF X] ga [OF Y] assms(2) ms by simp
  qed
qed


lemma for_each_cong:
  "(\<And>x s. x \<in> set xs \<Longrightarrow> f x s = g x s) \<Longrightarrow> for_each xs f s = for_each xs g s"
  by (induction xs arbitrary: s) (auto simp: bind_res_def split: sum.splits)

lemma efx_envy_pair_cong:
  assumes "get_assignment a (name q) = get_assignment b (name q)"
  shows "efx_envy_pair a p u q = efx_envy_pair b p u q"
  unfolding efx_envy_pair_def assms ..

lemma calculate_efx_envy_matrix_cong:
  assumes "\<And>p. p \<in> set players \<Longrightarrow> get_assignment a (name p) = get_assignment b (name p)"
  shows "calculate_efx_envy_matrix players a = calculate_efx_envy_matrix players b"
  unfolding calculate_efx_envy_matrix_def
proof (rule for_each_cong)
  fix x s assume x: "x \<in> set players"
  have "for_each players (efx_envy_pair a x u) s' = for_each players (efx_envy_pair b x u) s'"
    for u s'
    by (rule for_each_cong) (simp only: efx_envy_pair_cong [OF assms])
  then show "(case s of (efx_envy_matrix, total_efx_envy, individual_efx_envy_totals) \<Rightarrow>
          bind_res (sum_valuations x (get_assignment a (name x)))
            (\<lambda>player_i_utility.
               for_each players (efx_envy_pair a x player_i_utility)
                 (efx_envy_matrix(name x \<mapsto> Map.empty), total_efx_envy,
                  individual_efx_envy_totals(name x \<mapsto> 0))))
      = (case s of (efx_envy_matrix, total_efx_envy, individual_efx_envy_totals) \<Rightarrow>
          bind_res (sum_valuations x (get_assignment b (name x)))
            (\<lambda>player_i_utility.
               for_each players (efx_envy_pair b x player_i_utility)
                 (efx_envy_matrix(name x \<mapsto> Map.empty), total_efx_envy,
                  individual_efx_envy_totals(name x \<mapsto> 0))))"
    by (simp add: assms [OF x])
qed

lemma map_of_zip_map_lookup:
  "n \<in> set ns \<Longrightarrow> map_of (zip ns (map f ns)) n = Some (f n)"
  by (induction ns) auto

lemma efx_total_of_bundles:
  "efx_total players (of_bundles players (bundles players a)) = efx_total players a"
proof -
  have "get_assignment (of_bundles players (bundles players a)) (name p) = get_assignment a (name p)"
    if "p \<in> set players" for p
    using that
    by (simp add: of_bundles_def bundles_def get_assignment_def [of "_\<lparr>assignments := _\<rparr>"]
        map_of_zip_map_lookup)
  then have "calculate_efx_envy_matrix players (of_bundles players (bundles players a))
             = calculate_efx_envy_matrix players a"
    by (rule calculate_efx_envy_matrix_cong)
  then show ?thesis
    by (simp add: efx_total_def efx_envy_total_def)
qed

lemma held_goods_bundles:
  "held_goods players a = sum_list (map mset (bundles players a))"
  by (simp add: held_goods_def bundles_def comp_def)

lemma mset_member_sum_list:
  "l \<in> set v \<Longrightarrow> mset l \<subseteq># sum_list (map mset v)"
proof (induction v)
  case Nil
  then show ?case by simp
next
  case (Cons x v)
  then show ?case
    by (auto intro: subset_mset.order_trans [OF _ mset_subset_eq_add_right])
qed

lemma finite_bundle_lists:
  "finite {v :: good list list. length v = N \<and> sum_list (map mset v) = K}"
proof -
  let ?L = "{l :: good list. set l \<subseteq> set_mset K \<and> length l \<le> size K}"
  have fL: "finite ?L"
    by (rule finite_lists_length_le) simp
  have "l \<in> ?L" if "l \<in> set v" "sum_list (map mset v) = K" for l and v :: "good list list"
  proof -
    from mset_member_sum_list [OF that(1)] that(2) have sub: "mset l \<subseteq># K" by simp
    then have "set l \<subseteq> set_mset K"
      using set_mset_mono by fastforce
    moreover have "length l \<le> size K"
      using size_mset_mono [OF sub] by simp
    ultimately show ?thesis by simp
  qed
  then have "{v :: good list list. length v = N \<and> sum_list (map mset v) = K}
             \<subseteq> {v. set v \<subseteq> ?L \<and> length v = N}"
    by auto
  moreover have "finite {v. set v \<subseteq> ?L \<and> length v = N}"
    by (rule finite_lists_length_eq [OF fL])
  ultimately show ?thesis by (rule finite_subset)
qed

lemma finite_reachable_totals: "finite (reachable_totals players a)"
proof -
  let ?V = "{v :: good list list. length v = length (remdups (map name players))
                \<and> sum_list (map mset v) = held_goods players a}"
  have "reachable_totals players a \<subseteq> (\<lambda>v. efx_total players (of_bundles players v)) ` ?V"
  proof
    fix t assume "t \<in> reachable_totals players a"
    then obtain b where b: "held_goods players b = held_goods players a" "efx_total players b = t"
      by (auto simp: reachable_totals_def)
    have "bundles players b \<in> ?V"
      using b(1) by (simp add: held_goods_bundles) (simp add: bundles_def)
    moreover have "t = efx_total players (of_bundles players (bundles players b))"
      by (simp add: efx_total_of_bundles b(2))
    ultimately show "t \<in> (\<lambda>v. efx_total players (of_bundles players v)) ` ?V"
      by (rule rev_image_eqI)
  qed
  moreover have "finite ((\<lambda>v. efx_total players (of_bundles players v)) ` ?V)"
    by (rule finite_imageI) (rule finite_bundle_lists)
  ultimately show ?thesis by (rule finite_subset)
qed

lemma alloc_rank_less:
  assumes "held_goods players b = held_goods players a"
    and "efx_total players b < efx_total players a"
  shows "alloc_rank players b < alloc_rank players a"
proof -
  have same: "reachable_totals players b = reachable_totals players a"
    using assms(1) by (simp add: reachable_totals_def)
  have mem: "efx_total players b \<in> reachable_totals players a"
    using assms(1) by (auto simp: reachable_totals_def)
  have "{t \<in> reachable_totals players a. t < efx_total players b}
        \<subset> {t \<in> reachable_totals players a. t < efx_total players a}"
    using assms(2) mem by auto
  moreover have "finite {t \<in> reachable_totals players a. t < efx_total players a}"
    using finite_reachable_totals by simp
  ultimately show ?thesis
    unfolding alloc_rank_def same by (rule psubset_card_mono [rotated])
qed


lemma phase2_body_decreases:
  assumes "phase2_body players st = Inr (Continue st')"
  shows "((players, st'), (players, st))
         \<in> inv_image (less_than <*lex*> less_than <*lex*> less_than) phase2_measure"
  using assms
proof (cases rule: phase2_body_cases)
  case (skip envier envied rest)
  then have "envy_relationships st' = rest" "current_allocation st' = current_allocation st"
    by simp_all
  with skip(1) show ?thesis
    by (auto simp: phase2_measure_def good_queue_def)
next
  case (accept envier envied rest test cur new rels)
  from accept(7) have st': "envy_relationships st' = rels" "current_allocation st' = test"
    by (auto split: if_splits)
  have good: "good_queue rels"
    using accept(6) by (rule get_envy_relationships_good)
  show ?thesis
  proof (cases "good_queue (envy_relationships st)")
    case True
    with accept(1) have "envier \<noteq> envied" by (simp add: good_queue_def)
    with accept(2) have "held_goods players test = held_goods players (current_allocation st)"
      by (rule cut_and_choose_held_goods)
    moreover have "efx_total players test < efx_total players (current_allocation st)"
      using accept(3,4,5) by (simp add: efx_total_def)
    ultimately have "alloc_rank players test < alloc_rank players (current_allocation st)"
      by (rule alloc_rank_less)
    with True good st' show ?thesis
      by (simp add: phase2_measure_def)
  next
    case False
    with good st' show ?thesis
      by (simp add: phase2_measure_def)
  qed
next
  case (reject envier envied rest test cur new)
  from reject(6) have "envy_relationships st' = rest"
    "current_allocation st' = current_allocation st"
    by (auto split: if_splits)
  with reject(1) show ?thesis
    by (auto simp: phase2_measure_def good_queue_def)
qed

termination phase2_loop
proof (relation "inv_image (less_than <*lex*> less_than <*lex*> less_than) phase2_measure")
  show "wf (inv_image (less_than <*lex*> less_than <*lex*> less_than) phase2_measure)"
    by (intro wf_inv_image wf_lex_prod wf_less_than)
next
  fix players st out st'
  assume "envy_relationships st \<noteq> []" and "phase2_body players st = Inr out"
    and "out = Continue st'"
  then have "phase2_body players st = Inr (Continue st')" by simp
  then show "((players, st'), (players, st))
         \<in> inv_image (less_than <*lex*> less_than <*lex*> less_than) phase2_measure"
    by (rule phase2_body_decreases)
qed


lemmas matrix_eval = calculate_efx_envy_matrix_def calculate_envy_matrix_def efx_envy_pair_def
  envy_pair_def matrix_set_def totals_add_def least_valued_step_def Let_def
  get_assignment_def get_valuation_def active_table_def Player_def create_test_players_def



lemma t_rel2: "get_envy_relationships create_test_players test_case_2 = Inr [(''P4'', ''P1'')]"
  by (simp add: get_envy_relationships_def dict_get_def matrix_eval test_case_2_def)












end
